theory Spec2Isabelle
  imports Complex_Main "HOL-Library.Char_ord" "HOL-Library.List_Lexorder" "HOL-Library.Log_Nat"
begin

section \<open>The rating simulation script (assignments/simulate\_ratings.py)\<close>

text \<open>
  The script is a linear Python program: it seeds two random generators, fills a list of
  rating records in a nested loop, wraps it in a data frame, derives two grouped means and
  a pivot table, and writes the frame to a CSV file.

  Modelling conventions.
  \<^item> A Python \<open>float\<close> is modelled by the real number it denotes. A decimal literal
    and each of the two additions of line 47 round to the nearest double, ties to the even
    significand (\<open>fl\<close>, \<open>fadd\<close>). Clamping, doubling, rounding and halving are exact on
    doubles between 1 and 5 and are written without rounding. The grouped means divide
    exactly.
  \<^item> The numpy generator, the stdlib generator and the float printer are parameters
    (\<open>runtime\<close>): every theorem holds for any implementation of them.
  \<^item> The pandas operations the script calls (\<open>groupby\<close>, \<open>mean\<close>, \<open>sort_values\<close>,
    \<open>pivot\<close>, \<open>to_csv\<close>) are modelled by their documented behaviour on a frame with
    the columns Person, Product and Rating, given as the list of its rows.
  \<^item> A raised exception is the \<open>Inl\<close> branch of a sum.
  \<^item> Console output (the \<open>print\<close> calls) is not modelled.
\<close>

subsection \<open>Python built-ins used by the rating computation\<close>

text \<open>
  \<open>min(a, b)\<close> and \<open>max(a, b)\<close> keep the first argument unless the second is strictly
  smaller (larger).
\<close>

definition py_min :: "real \<Rightarrow> real \<Rightarrow> real" where
  "py_min a b = (if b < a then b else a)"

definition py_max :: "real \<Rightarrow> real \<Rightarrow> real" where
  "py_max a b = (if b > a then b else a)"

text \<open>
  \<open>round(x)\<close> with one argument, as CPython computes it for a float: the C library's
  \<open>round\<close> (halves away from zero), corrected to \<open>2 * round(x / 2)\<close> when \<open>x\<close> lies
  exactly halfway between two integers.
\<close>

definition c_round :: "real \<Rightarrow> int" where
  "c_round x = (if 0 \<le> x then \<lfloor>x + 1/2\<rfloor> else \<lceil>x - 1/2\<rceil>)"

definition py_round :: "real \<Rightarrow> int" where
  "py_round x =
     (let rounded = c_round x
      in if \<bar>x - of_int rounded\<bar> = 1/2 then 2 * c_round (x / 2) else rounded)"

text \<open>
  Doubles. \<open>exponent x\<close> is the integer \<open>e\<close> with \<open>2^e \<le> |x| < 2^(e+1)\<close>, computed from
  the bit length of the integer part of \<open>|x|\<close>, or of \<open>1 / |x|\<close> below 1. \<open>fl x\<close> is the
  double nearest to \<open>x\<close>: \<open>x\<close> is rounded to a multiple of the unit in the last of its 53
  significant bits, halfway cases to the even multiple; below \<open>2^-1022\<close> the unit stays
  \<open>2^-1074\<close>. Results beyond the largest double are not turned into infinities: no sum
  of line 47 reaches it, since a table entry is at most 4.2 in size and the noise is a
  finite double.
\<close>

definition exponent :: "real \<Rightarrow> int" where
  "exponent x =
     (let a = \<bar>x\<bar>
      in if 1 \<le> a then int (floorlog 2 (nat \<lfloor>a\<rfloor>)) - 1
         else - int (floorlog 2 (nat (\<lceil>1 / a\<rceil> - 1))))"

definition fl :: "real \<Rightarrow> real" where
  "fl x =
     (if x = 0 then 0
      else let e = max (exponent x) (- 1022);
               ulp = 2 powi (e - 52)
           in of_int (py_round (x / ulp)) * ulp)"

text \<open>The sum of two floats.\<close>

definition fadd :: "real \<Rightarrow> real \<Rightarrow> real" where
  "fadd a b = fl (a + b)"

subsection \<open>Data\<close>

datatype py_error = KeyError string | ValueError

record rating_rec =
  Person :: string
  Product :: string
  Rating :: real

text \<open>Lines 10 to 34: the literal tables; every score and bias is the double of its literal.\<close>

definition products :: "string list" where
  "products = [''Laptop Pro'', ''Wireless Headphones'', ''Smart Watch'', ''Tablet Mini'',
               ''Gaming Mouse'']"

definition people :: "string list" where
  "people = [''Alice'', ''Bob'', ''Carol'', ''David'', ''Emma'', ''Frank'', ''Grace'',
             ''Henry'', ''Iris'', ''Jack'']"

definition product_base_scores :: "string \<rightharpoonup> real" where
  "product_base_scores = map_of
     [(''Laptop Pro'', fl 4.2),
      (''Wireless Headphones'', fl 3.8),
      (''Smart Watch'', fl 3.5),
      (''Tablet Mini'', fl 3.0),
      (''Gaming Mouse'', fl 4.0)]"

definition person_bias :: "string \<rightharpoonup> real" where
  "person_bias = map_of
     [(''Alice'', fl 0.8),
      (''Bob'', fl 0.3),
      (''Carol'', - fl 0.2),
      (''David'', fl 0.0),
      (''Emma'', fl 0.5),
      (''Frank'', - fl 0.5),
      (''Grace'', fl 0.1),
      (''Henry'', - fl 0.3),
      (''Iris'', fl 0.4),
      (''Jack'', - fl 0.1)]"

subsection \<open>The generator (lines 36 to 59)\<close>

text \<open>
  Lines 47 to 53: the three assignments to \<open>rating\<close>. The sum of line 47 is evaluated
  from left to right, each addition rounding to a double.
\<close>

definition rate :: "real \<Rightarrow> real \<Rightarrow> real \<Rightarrow> real" where
  "rate base_score bias noise =
     (let rating = fadd (fadd base_score bias) noise;
          rating = py_max 1 (py_min 5 rating);
          rating = of_int (py_round (rating * 2)) / 2
      in rating)"

text \<open>
  The inner loop over the products, for one person. The state is the list
  \<open>ratings_data\<close> and the state of the generator that \<open>normal\<close> draws from. A failed
  dictionary lookup raises \<open>KeyError\<close>; the product is looked up before the person.
\<close>

fun products_loop ::
  "('g \<Rightarrow> real \<times> 'g) \<Rightarrow> (string \<rightharpoonup> real) \<Rightarrow> (string \<rightharpoonup> real) \<Rightarrow> string \<Rightarrow> string list \<Rightarrow>
   rating_rec list \<times> 'g \<Rightarrow> py_error + rating_rec list \<times> 'g" where
  "products_loop normal scores biases person [] st = Inr st"
| "products_loop normal scores biases person (product # rest) (ratings_data, g) =
     (case scores product of
        None \<Rightarrow> Inl (KeyError product)
      | Some base_score \<Rightarrow>
          (case biases person of
             None \<Rightarrow> Inl (KeyError person)
           | Some bias \<Rightarrow>
               (let (noise, g') = normal g;
                    rating = rate base_score bias noise
                in products_loop normal scores biases person rest
                     (ratings_data @ [\<lparr>Person = person, Product = product, Rating = rating\<rparr>],
                      g'))))"

text \<open>The outer loop over the people.\<close>

fun people_loop ::
  "('g \<Rightarrow> real \<times> 'g) \<Rightarrow> (string \<rightharpoonup> real) \<Rightarrow> (string \<rightharpoonup> real) \<Rightarrow> string list \<Rightarrow> string list \<Rightarrow>
   rating_rec list \<times> 'g \<Rightarrow> py_error + rating_rec list \<times> 'g" where
  "people_loop normal scores biases [] prods st = Inr st"
| "people_loop normal scores biases (person # rest) prods st =
     (case products_loop normal scores biases person prods st of
        Inl e \<Rightarrow> Inl e
      | Inr st' \<Rightarrow> people_loop normal scores biases rest prods st')"

definition generate ::
  "('g \<Rightarrow> real \<times> 'g) \<Rightarrow> (string \<rightharpoonup> real) \<Rightarrow> (string \<rightharpoonup> real) \<Rightarrow> string list \<Rightarrow> string list \<Rightarrow>
   'g \<Rightarrow> py_error + rating_rec list \<times> 'g" where
  "generate normal scores biases persons prods g =
     people_loop normal scores biases persons prods ([], g)"

subsection \<open>The summaries (lines 72 to 88)\<close>

text \<open>
  \<open>df.groupby(col)['Rating'].mean()\<close>: one entry per distinct key, keys in ascending
  order, each with the mean of the ratings of that key's rows.
\<close>

definition mean :: "real list \<Rightarrow> real" where
  "mean xs = sum_list xs / real (length xs)"

definition groupby_mean :: "(rating_rec \<Rightarrow> string) \<Rightarrow> rating_rec list \<Rightarrow> (string \<times> real) list" where
  "groupby_mean col df =
     map (\<lambda>k. (k, mean (map Rating (filter (\<lambda>r. col r = k) df))))
       (sort (remdups (map col df)))"

text \<open>
  \<open>sort_values(ascending=False)\<close>: pandas reverses the series, sorts it in ascending
  order and reverses the result. The sort is taken to be stable; the order it leaves
  among equal means plays no part in the theorems.
\<close>

definition sort_values_desc :: "(string \<times> real) list \<Rightarrow> (string \<times> real) list" where
  "sort_values_desc s = rev (sort_key snd (rev s))"

text \<open>Lines 76 and 83: the two conditional expressions.\<close>

definition tendency :: "real \<Rightarrow> string" where
  "tendency avg_rating =
     (if avg_rating > 3.5 then ''generous''
      else if avg_rating < 3.0 then ''harsh''
      else ''neutral'')"

definition quality :: "real \<Rightarrow> string" where
  "quality avg_rating =
     (if avg_rating > 4.0 then ''excellent''
      else if avg_rating > 3.5 then ''good''
      else if avg_rating > 3.0 then ''average''
      else ''poor'')"

text \<open>
  Lines 74 to 77 and 81 to 84: the sorted series and, for each entry, the name, the mean
  and the label that the loop prints.
\<close>

definition person_summary :: "rating_rec list \<Rightarrow> (string \<times> real \<times> string) list" where
  "person_summary df =
     (let person_avg = sort_values_desc (groupby_mean Person df)
      in map (\<lambda>(person, avg_rating). (person, avg_rating, tendency avg_rating)) person_avg)"

definition product_summary :: "rating_rec list \<Rightarrow> (string \<times> real \<times> string) list" where
  "product_summary df =
     (let product_avg = sort_values_desc (groupby_mean Product df)
      in map (\<lambda>(product, avg_rating). (product, avg_rating, quality avg_rating)) product_avg)"

text \<open>
  \<open>df.pivot(index='Person', columns='Product', values='Rating')\<close>: pandas raises
  \<open>ValueError\<close> (``Index contains duplicate entries, cannot reshape'') when two rows have
  the same index and column labels; otherwise the table has the distinct labels in
  ascending order on both axes, and a cell without a row is empty (NaN).
\<close>

record pivot_table =
  index :: "string list"
  columns :: "string list"
  cells :: "string \<times> string \<rightharpoonup> real"

definition pivot :: "rating_rec list \<Rightarrow> py_error + pivot_table" where
  "pivot df =
     (if \<not> distinct (map (\<lambda>r. (Person r, Product r)) df) then Inl ValueError
      else Inr \<lparr>index = sort (remdups (map Person df)),
                columns = sort (remdups (map Product df)),
                cells = map_of (map (\<lambda>r. ((Person r, Product r), Rating r)) df)\<rparr>)"

subsection \<open>The export (line 92)\<close>

text \<open>
  \<open>df.to_csv(path, index=False)\<close> writes the column names, then one line per row, fields
  joined by commas. A field is quoted only when it contains the delimiter, the quote
  character or a line break, and a quote inside it is doubled. With \<open>index=True\<close> every
  line would start with the row number (an empty field in the header).
\<close>

definition needs_quote :: "string \<Rightarrow> bool" where
  "needs_quote s \<longleftrightarrow> (\<exists>c \<in> set s. c \<in> {CHR '','', CHR 0x22, CHR 0x0A, CHR 0x0D})"

definition csv_field :: "string \<Rightarrow> string" where
  "csv_field s =
     (if needs_quote s
      then [CHR 0x22] @ concat (map (\<lambda>c. if c = CHR 0x22 then [c, c] else [c]) s) @ [CHR 0x22]
      else s)"

fun csv_line :: "string list \<Rightarrow> string" where
  "csv_line [] = []"
| "csv_line [f] = csv_field f"
| "csv_line (f # fs) = csv_field f @ '','' @ csv_line fs"

function show_nat :: "nat \<Rightarrow> string" where
  "show_nat n =
     (if n < 10 then [char_of (of_char CHR ''0'' + n)]
      else show_nat (n div 10) @ [char_of (of_char CHR ''0'' + n mod 10)])"
  by pat_completeness auto
termination
  by (relation "measure id") auto

definition to_csv :: "(real \<Rightarrow> string) \<Rightarrow> bool \<Rightarrow> rating_rec list \<Rightarrow> string list" where
  "to_csv float_str with_index df =
     (let header = (if with_index then [''''] else []) @ [''Person'', ''Product'', ''Rating''];
          rows = map (\<lambda>(i, r). (if with_index then [show_nat i] else []) @
                                [Person r, Product r, float_str (Rating r)])
                   (enumerate 0 df)
      in map csv_line (header # rows))"

subsection \<open>The whole script\<close>

text \<open>
  What the script takes from its libraries: seeding numpy's global generator, drawing
  from a normal distribution with given mean and standard deviation, seeding the stdlib
  generator, and printing a float. The mean and the standard deviation are handed to the
  generator as written.
\<close>

record ('g, 'h) runtime =
  np_random_seed :: "nat \<Rightarrow> 'g"
  np_random_normal :: "real \<Rightarrow> real \<Rightarrow> 'g \<Rightarrow> real \<times> 'g"
  random_seed :: "nat \<Rightarrow> 'h"
  float_str :: "real \<Rightarrow> string"

text \<open>
  The process state the script touches: the two global generators and the file system
  (a file is its list of lines).
\<close>

record ('g, 'h) world =
  np_random_state :: 'g
  random_state :: 'h
  files :: "string \<rightharpoonup> string list"

text \<open>The values the script derives: the data frame, the two summaries, the pivot table.\<close>

record report =
  frame :: "rating_rec list"
  person_lines :: "(string \<times> real \<times> string) list"
  product_lines :: "(string \<times> real \<times> string) list"
  matrix :: pivot_table

text \<open>
  The script with the two seed values as arguments; seeding replaces the generator's
  state. \<open>main\<close> is the script as written, with both seeds 42. A frame built from an
  empty list has no columns, and \<open>groupby('Person')\<close> on it raises \<open>KeyError\<close>; the
  summaries, the pivot and the export below are those of a frame that has the three
  columns.
\<close>

definition script ::
  "('g, 'h) runtime \<Rightarrow> nat \<Rightarrow> nat \<Rightarrow> ('g, 'h) world \<Rightarrow> py_error + report \<times> ('g, 'h) world" where
  "script rt np_seed py_seed w0 =
     (let w1 = w0\<lparr>np_random_state := np_random_seed rt np_seed\<rparr>;
          w2 = w1\<lparr>random_state := random_seed rt py_seed\<rparr>
      in case generate (np_random_normal rt 0 0.3) product_base_scores person_bias
                people products (np_random_state w2) of
           Inl e \<Rightarrow> Inl e
         | Inr (ratings_data, g) \<Rightarrow>
             (let w3 = w2\<lparr>np_random_state := g\<rparr>
              in if ratings_data = [] then Inl (KeyError ''Person'')
                 else case pivot ratings_data of
                   Inl e \<Rightarrow> Inl e
                 | Inr pivot_table \<Rightarrow>
                     Inr (\<lparr>frame = ratings_data,
                              person_lines = person_summary ratings_data,
                              product_lines = product_summary ratings_data,
                              matrix = pivot_table\<rparr>,
                          w3\<lparr>files := (files w3)(''product_ratings.csv'' \<mapsto>
                                 to_csv (float_str rt) False ratings_data)\<rparr>)))"

definition main :: "('g, 'h) runtime \<Rightarrow> ('g, 'h) world \<Rightarrow> py_error + report \<times> ('g, 'h) world" where
  "main rt w0 = script rt 42 42 w0"

subsection \<open>Notions of the specification\<close>

text \<open>Clamping to the interval from 1 to 5, in the specification's words.\<close>

definition clamp_spec :: "real \<Rightarrow> real" where
  "clamp_spec raw = (if raw < 1 then 1 else if raw > 5 then 5 else raw)"

text \<open>
  \<open>n\<close> is the integer nearest to \<open>x\<close>, the even one of the two when \<open>x\<close> is halfway
  between them.
\<close>

definition nearest_ties_even :: "real \<Rightarrow> int \<Rightarrow> bool" where
  "nearest_ties_even x n \<longleftrightarrow>
     \<bar>x - of_int n\<bar> \<le> 1/2 \<and> (\<bar>x - of_int n\<bar> = 1/2 \<longrightarrow> even n)"

text \<open>
  \<open>v\<close> is the rating the specification prescribes for the raw value \<open>raw\<close>: twice \<open>v\<close>
  is the integer nearest (ties to even) to twice the clamped raw value.
\<close>

definition spec_rating :: "real \<Rightarrow> real \<Rightarrow> bool" where
  "spec_rating raw v \<longleftrightarrow>
     (let n = \<lfloor>v * 2\<rfloor> in of_int n = v * 2 \<and> nearest_ties_even (clamp_spec raw * 2) n)"

text \<open>The invariant of a rating value: between 1 and 5, and twice it is an integer.\<close>

definition valid_rating :: "real \<Rightarrow> bool" where
  "valid_rating v \<longleftrightarrow> 1 \<le> v \<and> v \<le> 5 \<and> of_int \<lfloor>v * 2\<rfloor> = v * 2"

text \<open>A generator for examples: it returns its state, a number of quarters, and steps it.\<close>

definition quarters :: "int \<Rightarrow> real \<times> int" where
  "quarters g = (of_int g / 4, g + 1)"

text \<open>The first \<open>n\<close> draws from a generator, and the state it is left in.\<close>

fun draws :: "('g \<Rightarrow> real \<times> 'g) \<Rightarrow> nat \<Rightarrow> 'g \<Rightarrow> real list \<times> 'g" where
  "draws normal 0 g = ([], g)"
| "draws normal (Suc n) g =
     (let (z, g') = normal g; (zs, g'') = draws normal n g' in (z # zs, g''))"

text \<open>The record expected for a pair of a person and a product and a noise value.\<close>

definition expected ::
  "(string \<rightharpoonup> real) \<Rightarrow> (string \<rightharpoonup> real) \<Rightarrow> string \<times> string \<Rightarrow> real \<Rightarrow> rating_rec" where
  "expected scores biases pq z =
     \<lparr>Person = fst pq, Product = snd pq,
      Rating = rate (the (scores (snd pq))) (the (biases (fst pq))) z\<rparr>"

text \<open>
  The collection expected from the script's own tables, for a generator and its state
  after seeding.
\<close>

definition expected_frame :: "('g \<Rightarrow> real \<times> 'g) \<Rightarrow> 'g \<Rightarrow> rating_rec list" where
  "expected_frame normal g =
     map2 (expected product_base_scores person_bias) (List.product people products)
       (fst (draws normal (length people * length products) g))"

text \<open>Reading a pivot table back row by row, skipping the empty cells.\<close>

definition flatten :: "pivot_table \<Rightarrow> rating_rec list" where
  "flatten pt =
     concat (map (\<lambda>p. concat (map (\<lambda>q. case cells pt (p, q) of
                                          None \<Rightarrow> []
                                        | Some v \<Rightarrow> [\<lparr>Person = p, Product = q, Rating = v\<rparr>])
                                (columns pt)))
               (index pt))"

text \<open>
  A collection has exactly one record for every pair of a person and a product that
  occur in it.
\<close>

definition pair_of :: "rating_rec \<Rightarrow> string \<times> string" where
  "pair_of r = (Person r, Product r)"

definition one_per_pair :: "rating_rec list \<Rightarrow> bool" where
  "one_per_pair df \<longleftrightarrow>
     (\<forall>p \<in> set (map Person df). \<forall>q \<in> set (map Product df).
        length (filter (\<lambda>r. pair_of r = (p, q)) df) = 1)"

section \<open>The generator\<close>

subsection \<open>What the loops compute\<close>

lemma length_draws: "length (fst (draws normal n g)) = n"
  by (induction n arbitrary: g) (simp_all add: split_beta)

lemma draws_add:
  "draws normal (m + n) g =
     (fst (draws normal m g) @ fst (draws normal n (snd (draws normal m g))),
      snd (draws normal n (snd (draws normal m g))))"
  by (induction m arbitrary: g) (simp_all add: split_beta)

lemma products_loop_eq:
  assumes "set prods \<subseteq> dom scores" and "prods = [] \<or> person \<in> dom biases"
  shows "products_loop normal scores biases person prods (acc, g) =
           Inr (acc @ map2 (expected scores biases) (map (Pair person) prods)
                        (fst (draws normal (length prods) g)),
                snd (draws normal (length prods) g))"
  using assms
proof (induction prods arbitrary: acc g)
  case Nil
  then show ?case by simp
next
  case (Cons q qs)
  from Cons.prems obtain b s where b: "scores q = Some b" and s: "biases person = Some s"
    by auto
  obtain z g' where z: "normal g = (z, g')" by (cases "normal g")
  have "products_loop normal scores biases person qs
          (acc @ [\<lparr>Person = person, Product = q, Rating = rate b s z\<rparr>], g') =
        Inr ((acc @ [\<lparr>Person = person, Product = q, Rating = rate b s z\<rparr>]) @
               map2 (expected scores biases) (map (Pair person) qs)
                 (fst (draws normal (length qs) g')),
             snd (draws normal (length qs) g'))"
    using Cons.prems by (intro Cons.IH) auto
  then show ?case
    by (simp add: b s z split_beta expected_def)
qed

lemma people_loop_eq:
  assumes "set prods \<subseteq> dom scores" and "prods = [] \<or> set persons \<subseteq> dom biases"
  shows "people_loop normal scores biases persons prods (acc, g) =
           Inr (acc @ map2 (expected scores biases) (List.product persons prods)
                        (fst (draws normal (length persons * length prods) g)),
                snd (draws normal (length persons * length prods) g))"
  using assms
proof (induction persons arbitrary: acc g)
  case Nil
  then show ?case by simp
next
  case (Cons p ps)
  let ?m = "length prods"
  let ?d = "draws normal ?m g"
  have inner: "products_loop normal scores biases p prods (acc, g) =
      Inr (acc @ map2 (expected scores biases) (map (Pair p) prods) (fst ?d), snd ?d)"
    using Cons.prems by (intro products_loop_eq) auto
  have rest: "people_loop normal scores biases ps prods
        (acc @ map2 (expected scores biases) (map (Pair p) prods) (fst ?d), snd ?d) =
      Inr ((acc @ map2 (expected scores biases) (map (Pair p) prods) (fst ?d)) @
             map2 (expected scores biases) (List.product ps prods)
               (fst (draws normal (length ps * ?m) (snd ?d))),
           snd (draws normal (length ps * ?m) (snd ?d)))"
    using Cons.prems by (intro Cons.IH) auto
  have len: "length (map (Pair p) prods) = length (fst ?d)"
    by (simp add: length_draws)
  show ?case
    by (simp add: inner rest draws_add zip_append [OF len])
qed

lemma generate_eq:
  assumes "set prods \<subseteq> dom scores" and "set persons \<subseteq> dom biases"
  shows "generate normal scores biases persons prods g =
           Inr (map2 (expected scores biases) (List.product persons prods)
                  (fst (draws normal (length persons * length prods) g)),
                snd (draws normal (length persons * length prods) g))"
  using people_loop_eq [of prods scores persons biases normal "[]" g] assms
  by (simp add: generate_def)

subsection \<open>Rounding and the rating computation\<close>

lemma c_round_near: "\<bar>x - of_int (c_round x)\<bar> \<le> 1/2"
proof (cases "0 \<le> x")
  case True
  have "of_int \<lfloor>x + 1/2\<rfloor> \<le> x + 1/2" "x + 1/2 < of_int \<lfloor>x + 1/2\<rfloor> + 1"
    by linarith+
  moreover from True have "c_round x = \<lfloor>x + 1/2\<rfloor>" by (simp add: c_round_def)
  ultimately show ?thesis by linarith
next
  case False
  have "x - 1/2 \<le> of_int \<lceil>x - 1/2\<rceil>" "of_int \<lceil>x - 1/2\<rceil> < x - 1/2 + 1"
    by linarith+
  moreover from False have "c_round x = \<lceil>x - 1/2\<rceil>" by (simp add: c_round_def)
  ultimately show ?thesis by linarith
qed

lemma c_round_quarter: "c_round (of_int j + 1/4) = j"
proof -
  have "\<lfloor>of_int j + 1/4 + 1/2 :: real\<rfloor> = j" "\<lceil>of_int j + 1/4 - 1/2 :: real\<rceil> = j"
    by linarith+
  then show ?thesis by (simp add: c_round_def)
qed

lemma c_round_three_quarters: "c_round (of_int j + 3/4) = j + 1"
proof -
  have "\<lfloor>of_int j + 3/4 + 1/2 :: real\<rfloor> = j + 1" "\<lceil>of_int j + 3/4 - 1/2 :: real\<rceil> = j + 1"
    by linarith+
  then show ?thesis by (simp add: c_round_def)
qed

lemma halfway_form:
  assumes "\<bar>(x::real) - of_int (r::int)\<bar> = 1/2"
  shows "\<exists>k::int. x = of_int k + 1/2"
proof (cases "x \<ge> of_int r")
  case True
  with assms have "x = of_int r + 1/2" by simp
  then show ?thesis by blast
next
  case False
  with assms have "x = of_int (r - 1) + 1/2" by simp
  then show ?thesis by blast
qed

lemma py_round_halfway: "py_round (of_int k + 1/2) = (if even k then k else k + 1)"
proof -
  let ?x = "of_int k + 1/2 :: real"
  have "\<lfloor>?x + 1/2\<rfloor> = k + 1" "\<lceil>?x - 1/2\<rceil> = k"
    by linarith+
  then have near: "\<bar>?x - of_int (c_round ?x)\<bar> = 1/2"
    by (simp add: c_round_def)
  show ?thesis
  proof (cases "even k")
    case True
    then obtain j where k: "k = 2 * j" by (elim evenE)
    have "?x / 2 = of_int j + 1/4" by (simp add: k)
    then have "c_round (?x / 2) = j" by (simp only: c_round_quarter)
    with near True k show ?thesis by (simp add: py_round_def Let_def)
  next
    case False
    then obtain j where k: "k = 2 * j + 1" by (elim oddE)
    have "?x / 2 = of_int j + 3/4" by (simp add: k)
    then have "c_round (?x / 2) = j + 1" by (simp only: c_round_three_quarters)
    with near False k show ?thesis by (simp add: py_round_def Let_def)
  qed
qed

lemma py_round_nearest: "nearest_ties_even x (py_round x)"
proof (cases "\<bar>x - of_int (c_round x)\<bar> = 1/2")
  case True
  then obtain k :: int where x: "x = of_int k + 1/2" using halfway_form by blast
  show ?thesis
    unfolding x py_round_halfway nearest_ties_even_def by auto
next
  case False
  then have "py_round x = c_round x" by (simp add: py_round_def)
  with False c_round_near [of x] show ?thesis
    by (simp add: nearest_ties_even_def)
qed

lemma nearest_ties_even_unique:
  assumes "nearest_ties_even x n" and "nearest_ties_even x m"
  shows "n = m"
proof (rule ccontr)
  assume ne: "n \<noteq> m"
  from assms have n: "\<bar>x - of_int n\<bar> \<le> 1/2" and m: "\<bar>x - of_int m\<bar> \<le> 1/2"
    by (simp_all add: nearest_ties_even_def)
  then have "\<bar>(of_int n :: real) - of_int m\<bar> \<le> 1" by linarith
  then have "\<bar>n - m\<bar> \<le> 1" by linarith
  with ne have d: "n = m + 1 \<or> m = n + 1" by linarith
  with n m have "\<bar>x - of_int n\<bar> = 1/2 \<and> \<bar>x - of_int m\<bar> = 1/2"
    by (elim disjE; simp; linarith)
  with assms have "even n \<and> even m" by (simp add: nearest_ties_even_def)
  with d show False by auto
qed

lemma clamp_eq: "py_max 1 (py_min 5 x) = clamp_spec x"
  by (simp add: py_max_def py_min_def clamp_spec_def)

lemma rate_eq: "rate b s z = of_int (py_round (clamp_spec (fadd (fadd b s) z) * 2)) / 2"
  by (simp add: rate_def clamp_eq)

lemma rate_iff_spec: "rate b s z = v \<longleftrightarrow> spec_rating (fadd (fadd b s) z) v"
proof
  assume "rate b s z = v"
  then have v: "v * 2 = of_int (py_round (clamp_spec (fadd (fadd b s) z) * 2))"
    by (simp add: rate_eq)
  then have "\<lfloor>v * 2\<rfloor> = py_round (clamp_spec (fadd (fadd b s) z) * 2)" by simp
  with v py_round_nearest [of "clamp_spec (fadd (fadd b s) z) * 2"] show "spec_rating (fadd (fadd b s) z) v"
    by (simp add: spec_rating_def)
next
  assume "spec_rating (fadd (fadd b s) z) v"
  then have v: "of_int \<lfloor>v * 2\<rfloor> = v * 2"
    and n: "nearest_ties_even (clamp_spec (fadd (fadd b s) z) * 2) \<lfloor>v * 2\<rfloor>"
    by (simp_all add: spec_rating_def Let_def)
  from n py_round_nearest have "py_round (clamp_spec (fadd (fadd b s) z) * 2) = \<lfloor>v * 2\<rfloor>"
    by (rule nearest_ties_even_unique [symmetric])
  with v show "rate b s z = v" by (simp add: rate_eq)
qed

lemma py_round_bounds:
  assumes "of_int a \<le> x" and "x \<le> of_int b"
  shows "a \<le> py_round x \<and> py_round x \<le> b"
proof -
  from py_round_nearest [of x] have "\<bar>x - of_int (py_round x)\<bar> \<le> 1/2"
    by (simp add: nearest_ties_even_def)
  with assms have "of_int a - 1 < (of_int (py_round x) :: real)"
    and "(of_int (py_round x) :: real) < of_int b + 1" by linarith+
  then have "a - 1 < py_round x" "py_round x < b + 1" by linarith+
  then show ?thesis by simp
qed

lemma rate_range: "1 \<le> rate b s z \<and> rate b s z \<le> 5"
proof -
  let ?c = "clamp_spec (fadd (fadd b s) z)"
  have "of_int 2 \<le> ?c * 2" "?c * 2 \<le> of_int 10" by (simp_all add: clamp_spec_def)
  then have "2 \<le> py_round (?c * 2) \<and> py_round (?c * 2) \<le> 10" by (rule py_round_bounds)
  then have "2 \<le> (of_int (py_round (?c * 2)) :: real) \<and> (of_int (py_round (?c * 2)) :: real) \<le> 10"
    by (metis of_int_le_iff of_int_numeral)
  then show ?thesis by (simp add: rate_eq)
qed

lemma rate_half: "\<exists>n::int. rate b s z = of_int n * 0.5"
  by (rule exI [of _ "py_round (clamp_spec (fadd (fadd b s) z) * 2)"]) (simp add: rate_eq)

text \<open>
  The exponent brackets its argument between two consecutive powers of two, so \<open>fl\<close>
  rounds at the 53rd significant bit.
\<close>

lemma power_bracket_real:
  assumes "2 ^ (k - 1) \<le> (n::nat)" and "n < 2 ^ k"
  shows "(2::real) ^ (k - 1) \<le> real n" and "real n + 1 \<le> 2 ^ k"
proof -
  from assms(1) have "real (2 ^ (k - 1)) \<le> real n" by (simp only: of_nat_le_iff)
  then show "(2::real) ^ (k - 1) \<le> real n" by simp
  from assms(2) have "Suc n \<le> 2 ^ k" by (rule Suc_leI)
  then have "real (Suc n) \<le> real (2 ^ k)" by (simp only: of_nat_le_iff)
  then show "real n + 1 \<le> 2 ^ k" by simp
qed

lemma floorlog_two_bracket:
  assumes "0 < n"
  shows "0 < floorlog 2 n" and "(2::real) ^ (floorlog 2 n - 1) \<le> real n"
    and "real n + 1 \<le> 2 ^ floorlog 2 n"
proof -
  from assms show "0 < floorlog 2 n"
    using floorlog_eq_zero_iff [of 2 n] by simp
  from floorlog_bounds [OF assms, of 2]
  have "2 ^ (floorlog 2 n - 1) \<le> n" "n < 2 ^ floorlog 2 n" by simp_all
  then show "(2::real) ^ (floorlog 2 n - 1) \<le> real n" "real n + 1 \<le> 2 ^ floorlog 2 n"
    by (rule power_bracket_real)+
qed

lemma exponent_bounds:
  assumes "x \<noteq> 0"
  shows "2 powi exponent x \<le> \<bar>x\<bar> \<and> \<bar>x\<bar> < 2 powi (exponent x + 1)"
proof (cases "1 \<le> \<bar>x\<bar>")
  case True
  define n where "n = nat \<lfloor>\<bar>x\<bar>\<rfloor>"
  define k where "k = floorlog 2 n"
  from True have n: "0 < n" by (simp add: n_def)
  from floorlog_two_bracket [OF n]
  have k: "0 < k" and lo: "(2::real) ^ (k - 1) \<le> real n" and hi: "real n + 1 \<le> 2 ^ k"
    by (simp_all only: k_def)
  have rn: "real n = of_int \<lfloor>\<bar>x\<bar>\<rfloor>" by (simp add: n_def)
  have "of_int \<lfloor>\<bar>x\<bar>\<rfloor> \<le> \<bar>x\<bar>" "\<bar>x\<bar> < of_int \<lfloor>\<bar>x\<bar>\<rfloor> + 1" by linarith+
  with lo hi rn have low: "(2::real) ^ (k - 1) \<le> \<bar>x\<bar>" and high: "\<bar>x\<bar> < (2::real) ^ k"
    by linarith+
  from True k have e: "exponent x = int (k - 1)"
    by (simp add: exponent_def Let_def of_nat_diff k_def n_def)
  from k have e1: "int (k - 1) + 1 = int k" by simp
  from low high show ?thesis
    by (simp only: e e1 power_int_of_nat)
next
  case False
  define a where "a = \<bar>x\<bar>"
  define j where "j = nat (\<lceil>1 / a\<rceil> - 1)"
  define k where "k = floorlog 2 j"
  from assms False have a: "0 < a" "a < 1" by (simp_all add: a_def)
  then have y: "1 < 1 / a" by simp
  then have m: "2 \<le> \<lceil>1 / a\<rceil>" by linarith
  then have j: "0 < j" by (simp add: j_def)
  from floorlog_two_bracket [OF j]
  have k: "0 < k" and lo: "(2::real) ^ (k - 1) \<le> real j" and hi: "real j + 1 \<le> 2 ^ k"
    by (simp_all only: k_def)
  from m have "0 \<le> \<lceil>1 / a\<rceil> - 1" by linarith
  then have "real (nat (\<lceil>1 / a\<rceil> - 1)) = of_int (\<lceil>1 / a\<rceil> - 1)"
    by (rule of_nat_nat)
  then have rj: "real j = of_int \<lceil>1 / a\<rceil> - 1"
    by (simp only: j_def of_int_diff of_int_1)
  have "1 / a \<le> of_int \<lceil>1 / a\<rceil>" "of_int \<lceil>1 / a\<rceil> - 1 < 1 / a" by linarith+
  with lo hi rj have "1 / a \<le> (2::real) ^ k" and "(2::real) ^ (k - 1) < 1 / a"
    by linarith+
  with a have low: "1 / (2::real) ^ k \<le> a" and high: "a < 1 / (2::real) ^ (k - 1)"
    by (simp_all add: field_simps)
  from False have e: "exponent x = - int k"
    by (simp add: exponent_def Let_def k_def j_def a_def)
  have p1: "(2::real) powi (- int k) = 1 / 2 ^ k"
    by (simp add: power_int_minus_divide)
  from k have "- int k + 1 = - int (k - 1)" by simp
  then have p2: "(2::real) powi (- int k + 1) = 1 / 2 ^ (k - 1)"
    by (simp only: power_int_minus_divide power_int_of_nat)
  from low high show ?thesis
    by (simp only: e p1 p2 a_def)
qed

text \<open>
  Next to a rounding tie the two additions decide the rating. With base 3.8, bias -0.1 and
  noise 0.05 the decimal sum 3.75 is a tie, but line 47 yields a double just below it and
  the rating is 3.5; with 4.2, -0.3 and -0.65 the decimal sum 3.25 is a tie, line 47
  yields a double just above it, and the rating is again 3.5.
\<close>

lemma rate_next_to_tie:
  "rate (fl 3.8) (- fl 0.1) (fl 0.05) = 3.5" "rate (fl 4.2) (- fl 0.3) (- fl 0.65) = 3.5"
  by code_simp+

subsection \<open>The rating of every pair\<close>

lemma draws_first: "0 < n \<Longrightarrow> fst (draws normal n g) ! 0 = fst (normal g)"
  by (cases n) (simp_all add: split_beta)

lemma tables_covered:
  "set products \<subseteq> dom product_base_scores" "set people \<subseteq> dom person_bias"
  by (simp_all add: products_def people_def product_base_scores_def person_bias_def)

lemma generate_nth:
  assumes "set prods \<subseteq> dom scores" and "set persons \<subseteq> dom biases"
    and "generate normal scores biases persons prods g = Inr (rs, g')"
    and "i < length persons" and "j < length prods"
  shows "rs ! (i * length prods + j) =
           expected scores biases (persons ! i, prods ! j)
             (fst (draws normal (length persons * length prods) g) ! (i * length prods + j))"
proof -
  let ?k = "i * length prods + j"
  let ?n = "length persons * length prods"
  have "?k < (i + 1) * length prods" using assms(5) by simp
  also have "\<dots> \<le> ?n" using assms(4) by (intro mult_le_mono1) simp
  finally have k: "?k < ?n" .
  have rs: "rs = map2 (expected scores biases) (List.product persons prods)
                   (fst (draws normal ?n g))"
    using generate_eq [OF assms(1,2), of normal g] assms(3) by simp
  from assms(5) have ne: "length prods \<noteq> 0" by auto
  have dm: "?k div length prods = i" "?k mod length prods = j"
    using assms(5) ne by (simp_all add: div_mult_self3)
  have "List.product persons prods ! ?k = (persons ! i, prods ! j)"
    using k by (simp only: List.product_nth dm)
  with k show ?thesis
    by (simp add: rs length_draws)
qed

text \<open>
  Claim C1. When both tables cover the lists, the generator returns one record for every
  pair of the \<open>i\<close>-th person and the \<open>j\<close>-th product, at position
  \<open>i * |products| + j\<close>, and the rating of that record is exactly the value the
  specification prescribes for the raw value base score + bias + noise, where the noise is
  the draw with that same position and the sum is the one line 47 computes (two double
  additions, left to right): clamp to the interval from 1 to 5, double, round to the
  nearest integer with ties to even, halve. For base 4.2, bias 0.8 and noise 0.25 the sum
  is 5.25, the clamped value is 5 and the rating is 5; for base 3, bias 0 and noise 0 the
  rating is 3.
\<close>

theorem generated_rating_follows_spec:
  assumes "set prods \<subseteq> dom scores" and "set persons \<subseteq> dom biases"
  shows "(\<exists>rs g'. generate normal scores biases persons prods g = Inr (rs, g') \<and>
            length rs = length persons * length prods \<and>
            (\<forall>i < length persons. \<forall>j < length prods.
               Person (rs ! (i * length prods + j)) = persons ! i \<and>
               Product (rs ! (i * length prods + j)) = prods ! j \<and>
               (\<forall>v. (Rating (rs ! (i * length prods + j)) = v) =
                     spec_rating
                       (fadd (fadd (the (scores (prods ! j))) (the (biases (persons ! i))))
                          (fst (draws normal (length persons * length prods) g) !
                             (i * length prods + j))) v))) \<and>
         fadd (fadd (fl 4.2) (fl 0.8)) (fl 0.25) = 5.25 \<and> clamp_spec 5.25 = 5.0 \<and>
         rate (fl 4.2) (fl 0.8) (fl 0.25) = 5.0 \<and>
         rate (fl 3.0) (fl 0.0) (fl 0.0) = 3.0"
proof (intro conjI)
  let ?n = "length persons * length prods"
  let ?rs = "map2 (expected scores biases) (List.product persons prods)
               (fst (draws normal ?n g))"
  let ?g' = "snd (draws normal ?n g)"
  have gen: "generate normal scores biases persons prods g = Inr (?rs, ?g')"
    by (rule generate_eq [OF assms])
  have len: "length ?rs = ?n"
    by (simp add: length_draws)
  have each: "\<forall>i < length persons. \<forall>j < length prods.
        Person (?rs ! (i * length prods + j)) = persons ! i \<and>
        Product (?rs ! (i * length prods + j)) = prods ! j \<and>
        (\<forall>v. (Rating (?rs ! (i * length prods + j)) = v) =
              spec_rating
                (fadd (fadd (the (scores (prods ! j))) (the (biases (persons ! i))))
                   (fst (draws normal ?n g) ! (i * length prods + j))) v)"
  proof (intro allI impI)
    fix i j assume ij: "i < length persons" "j < length prods"
    show "Person (?rs ! (i * length prods + j)) = persons ! i \<and>
        Product (?rs ! (i * length prods + j)) = prods ! j \<and>
        (\<forall>v. (Rating (?rs ! (i * length prods + j)) = v) =
              spec_rating
                (fadd (fadd (the (scores (prods ! j))) (the (biases (persons ! i))))
                   (fst (draws normal ?n g) ! (i * length prods + j))) v)"
      unfolding generate_nth [OF assms gen ij]
      by (simp add: expected_def rate_iff_spec)
  qed
  show "\<exists>rs g'. generate normal scores biases persons prods g = Inr (rs, g') \<and>
            length rs = length persons * length prods \<and>
            (\<forall>i < length persons. \<forall>j < length prods.
               Person (rs ! (i * length prods + j)) = persons ! i \<and>
               Product (rs ! (i * length prods + j)) = prods ! j \<and>
               (\<forall>v. (Rating (rs ! (i * length prods + j)) = v) =
                     spec_rating
                       (fadd (fadd (the (scores (prods ! j))) (the (biases (persons ! i))))
                          (fst (draws normal (length persons * length prods) g) !
                             (i * length prods + j))) v))"
    by (rule exI [of _ ?rs], rule exI [of _ ?g'], intro conjI gen len each)
  show "fadd (fadd (fl 4.2) (fl 0.8)) (fl 0.25) = 5.25"
    by code_simp
  show "clamp_spec 5.25 = 5.0"
    by (simp add: clamp_spec_def)
  show "rate (fl 4.2) (fl 0.8) (fl 0.25) = 5.0"
    by code_simp
  show "rate (fl 3.0) (fl 0.0) (fl 0.0) = 3.0"
    by code_simp
qed

theorem generated_rating_follows_spec_witness:
  "set products \<subseteq> dom product_base_scores \<and> set people \<subseteq> dom person_bias \<and>
   (\<exists>rs g'. generate quarters product_base_scores person_bias people products 1 = Inr (rs, g') \<and>
      length rs = 50 \<and> Person (rs ! 0) = ''Alice'' \<and> Product (rs ! 0) = ''Laptop Pro'' \<and>
      Rating (rs ! 0) = 5)"
proof -
  have lens: "length people = 10" "length products = 5"
    by (simp_all add: people_def products_def)
  from generated_rating_follows_spec [OF tables_covered, of quarters 1]
  have "\<exists>rs g'. generate quarters product_base_scores person_bias people products 1 = Inr (rs, g') \<and>
            length rs = length people * length products \<and>
            (\<forall>i < length people. \<forall>j < length products.
               Person (rs ! (i * length products + j)) = people ! i \<and>
               Product (rs ! (i * length products + j)) = products ! j \<and>
               (\<forall>v. (Rating (rs ! (i * length products + j)) = v) =
                     spec_rating
                       (fadd (fadd (the (product_base_scores (products ! j)))
                                (the (person_bias (people ! i))))
                          (fst (draws quarters (length people * length products) 1) !
                             (i * length products + j))) v))"
    by (rule conjunct1)
  then obtain rs g' where
    gen: "generate quarters product_base_scores person_bias people products 1 = Inr (rs, g')"
    and len: "length rs = length people * length products"
    and all: "\<forall>i < length people. \<forall>j < length products.
               Person (rs ! (i * length products + j)) = people ! i \<and>
               Product (rs ! (i * length products + j)) = products ! j \<and>
               (\<forall>v. (Rating (rs ! (i * length products + j)) = v) =
                     spec_rating
                       (fadd (fadd (the (product_base_scores (products ! j)))
                                (the (person_bias (people ! i))))
                          (fst (draws quarters (length people * length products) 1) !
                             (i * length products + j))) v)"
    by (elim exE conjE)
  have pos: "0 < length people" "0 < length products"
    by (simp_all add: lens)
  from all [rule_format, OF pos] have first:
    "Person (rs ! 0) = people ! 0 \<and> Product (rs ! 0) = products ! 0 \<and>
     (\<forall>v. (Rating (rs ! 0) = v) =
           spec_rating
             (fadd (fadd (the (product_base_scores (products ! 0))) (the (person_bias (people ! 0))))
                (fst (draws quarters (length people * length products) 1) ! 0)) v)"
    by simp
  have d: "fst (draws quarters (length people * length products) 1) ! 0 = 1/4"
    by (simp add: draws_first quarters_def lens)
  have p0: "people ! 0 = ''Alice''" and q0: "products ! 0 = ''Laptop Pro''"
    by (simp_all add: people_def products_def)
  have b: "the (product_base_scores ''Laptop Pro'') = fl 4.2"
    and s: "the (person_bias ''Alice'') = fl 0.8"
    by (simp_all add: product_base_scores_def person_bias_def)
  have "fadd (fadd (fl 4.2) (fl 0.8)) (1/4) = 21/4"
    by code_simp
  then have raw: "fadd (fadd (the (product_base_scores ''Laptop Pro''))
                      (the (person_bias ''Alice''))) (1/4) = 21/4"
    by (simp only: b s)
  have "spec_rating (21/4) 5"
    by (simp add: spec_rating_def clamp_spec_def nearest_ties_even_def)
  with first have r: "Rating (rs ! 0) = 5"
    by (simp add: d p0 q0 raw)
  from len have "length rs = 50" by (simp add: lens)
  then have "generate quarters product_base_scores person_bias people products 1 = Inr (rs, g') \<and>
      length rs = 50 \<and> Person (rs ! 0) = ''Alice'' \<and> Product (rs ! 0) = ''Laptop Pro'' \<and>
      Rating (rs ! 0) = 5"
    using first r gen by (simp only: p0 q0 simp_thms)
  then show ?thesis
    using tables_covered by blast
qed

subsection \<open>The range of the ratings\<close>

lemma rate_valid: "valid_rating (rate b s z)"
proof -
  have "of_int \<lfloor>rate b s z * 2\<rfloor> = rate b s z * 2"
    by (simp add: rate_eq)
  with rate_range [of b s z] show ?thesis
    by (simp add: valid_rating_def)
qed

lemma products_loop_valid:
  assumes "products_loop normal scores biases person prods (acc, g) = Inr (rs, g')"
    and "\<forall>r \<in> set acc. valid_rating (Rating r)"
  shows "\<forall>r \<in> set rs. valid_rating (Rating r)"
  using assms
proof (induction prods arbitrary: acc g)
  case Nil
  then show ?case by simp
next
  case (Cons q qs)
  from Cons.prems(1) obtain b s where b: "scores q = Some b" and s: "biases person = Some s"
    by (auto split: option.splits)
  obtain z g1 where z: "normal g = (z, g1)" by (cases "normal g")
  let ?acc = "acc @ [\<lparr>Person = person, Product = q, Rating = rate b s z\<rparr>]"
  from Cons.prems(1) have "products_loop normal scores biases person qs (?acc, g1) = Inr (rs, g')"
    by (simp add: b s z)
  moreover from Cons.prems(2) have "\<forall>r \<in> set ?acc. valid_rating (Rating r)"
    by (simp add: rate_valid)
  ultimately show ?case by (rule Cons.IH)
qed

lemma people_loop_valid:
  assumes "people_loop normal scores biases persons prods (acc, g) = Inr (rs, g')"
    and "\<forall>r \<in> set acc. valid_rating (Rating r)"
  shows "\<forall>r \<in> set rs. valid_rating (Rating r)"
  using assms
proof (induction persons arbitrary: acc g)
  case Nil
  then show ?case by simp
next
  case (Cons p ps)
  from Cons.prems(1) obtain acc1 g1 where
    inner: "products_loop normal scores biases p prods (acc, g) = Inr (acc1, g1)"
    and rest: "people_loop normal scores biases ps prods (acc1, g1) = Inr (rs, g')"
    by (auto split: sum.splits)
  from inner Cons.prems(2) have "\<forall>r \<in> set acc1. valid_rating (Rating r)"
    by (rule products_loop_valid)
  with rest show ?case by (rule Cons.IH)
qed

text \<open>
  Claim C2. Every rating the generator emits, for any tables, any lists, any generator
  and any noise value, lies between 1 and 5 and is an integer multiple of 0.5; and on the
  script's own tables the generator does return a nonempty collection.
\<close>

theorem generated_rating_in_range:
  "(\<forall>rs g'. generate normal scores biases persons prods g = Inr (rs, g') \<longrightarrow>
      (\<forall>r \<in> set rs. 1 \<le> Rating r \<and> Rating r \<le> 5 \<and> (\<exists>n::int. Rating r = of_int n * 0.5))) \<and>
   (\<forall>base_score bias noise.
      1 \<le> rate base_score bias noise \<and> rate base_score bias noise \<le> 5 \<and>
      (\<exists>n::int. rate base_score bias noise = of_int n * 0.5)) \<and>
   (\<exists>rs g'. generate normal product_base_scores person_bias people products g = Inr (rs, g') \<and>
      rs \<noteq> [])"
proof (intro conjI allI impI ballI)
  fix rs g' r
  assume gen: "generate normal scores biases persons prods g = Inr (rs, g')" and r: "r \<in> set rs"
  from gen have "\<forall>r \<in> set rs. valid_rating (Rating r)"
    unfolding generate_def by (rule people_loop_valid) simp
  with r have v: "valid_rating (Rating r)" by blast
  then show "1 \<le> Rating r" "Rating r \<le> 5"
    by (simp_all add: valid_rating_def)
  from v have "of_int \<lfloor>Rating r * 2\<rfloor> = Rating r * 2"
    unfolding valid_rating_def by (elim conjE)
  then have "Rating r = of_int \<lfloor>Rating r * 2\<rfloor> * 0.5"
    by linarith
  then show "\<exists>n::int. Rating r = of_int n * 0.5" ..
next
  fix base_score bias noise
  show "1 \<le> rate base_score bias noise" "rate base_score bias noise \<le> 5"
    using rate_range [of base_score bias noise] by simp_all
  show "\<exists>n::int. rate base_score bias noise = of_int n * 0.5"
    by (rule rate_half)
next
  let ?n = "length people * length products"
  let ?rs = "map2 (expected product_base_scores person_bias) (List.product people products)
               (fst (draws normal ?n g))"
  have "generate normal product_base_scores person_bias people products g =
          Inr (?rs, snd (draws normal ?n g))"
    by (rule generate_eq [OF tables_covered])
  moreover have "length ?rs = 50"
    by (simp add: length_draws) (simp add: people_def products_def)
  then have "?rs \<noteq> []" by (metis length_0_conv zero_neq_numeral)
  ultimately show "\<exists>rs g'. generate normal product_base_scores person_bias people products g =
      Inr (rs, g') \<and> rs \<noteq> []"
    by blast
qed

theorem generated_rating_in_range_witness:
  "\<exists>rs g'. generate quarters product_base_scores person_bias people products (- 20) = Inr (rs, g') \<and>
     rs \<noteq> [] \<and> 1 \<le> Rating (hd rs) \<and> Rating (hd rs) \<le> 5 \<and>
     (\<exists>n::int. Rating (hd rs) = of_int n * 0.5)"
proof -
  note inst = generated_rating_in_range
    [of quarters product_base_scores person_bias people products "- 20"]
  from inst obtain rs g' where
    gen: "generate quarters product_base_scores person_bias people products (- 20) = Inr (rs, g')"
    and ne: "rs \<noteq> []"
    by (elim conjE exE)
  from inst gen have "\<forall>r \<in> set rs. 1 \<le> Rating r \<and> Rating r \<le> 5 \<and> (\<exists>n::int. Rating r = of_int n * 0.5)"
    by (elim conjE allE [of _ rs] allE [of _ g']) (erule (1) mp)
  moreover from ne have "hd rs \<in> set rs" by simp
  ultimately have "1 \<le> Rating (hd rs) \<and> Rating (hd rs) \<le> 5 \<and>
     (\<exists>n::int. Rating (hd rs) = of_int n * 0.5)"
    by (rule bspec)
  with gen ne have "generate quarters product_base_scores person_bias people products (- 20) =
       Inr (rs, g') \<and>
     rs \<noteq> [] \<and> 1 \<le> Rating (hd rs) \<and> Rating (hd rs) \<le> 5 \<and>
     (\<exists>n::int. Rating (hd rs) = of_int n * 0.5)"
    by (intro conjI) (elim conjE; assumption)+
  then show ?thesis by (intro exI)
qed

subsection \<open>The shape of the collection\<close>

lemma pair_of_expected: "pair_of (expected scores biases pq z) = pq"
  by (simp add: pair_of_def expected_def)

lemma map_pair_of_expected:
  "length zs = length pqs \<Longrightarrow> map pair_of (map2 (expected scores biases) pqs zs) = pqs"
  by (induction pqs zs rule: list_induct2') (simp_all add: pair_of_expected)

lemma generate_pairs:
  assumes "set prods \<subseteq> dom scores" and "set persons \<subseteq> dom biases"
    and "generate normal scores biases persons prods g = Inr (rs, g')"
  shows "map pair_of rs = List.product persons prods"
proof -
  let ?n = "length persons * length prods"
  have "rs = map2 (expected scores biases) (List.product persons prods) (fst (draws normal ?n g))"
    using generate_eq [OF assms(1,2), of normal g] assms(3) by simp
  moreover have "length (fst (draws normal ?n g)) = length (List.product persons prods)"
    by (simp add: length_draws)
  ultimately show ?thesis
    by (simp only: map_pair_of_expected)
qed

lemma filter_key_distinct:
  "distinct (map f xs) \<Longrightarrow> k \<in> set (map f xs) \<Longrightarrow> length (filter (\<lambda>r. f r = k) xs) = 1"
proof (induction xs)
  case Nil
  then show ?case by simp
next
  case (Cons x xs)
  show ?case
  proof (cases "f x = k")
    case True
    with Cons.prems have "\<forall>r \<in> set xs. f r \<noteq> k"
      by (metis distinct.simps(2) image_eqI list.simps(9) set_map)
    then have "filter (\<lambda>r. f r = k) xs = []"
      by (simp add: filter_empty_conv)
    with True show ?thesis by simp
  next
    case False
    with Cons show ?thesis by auto
  qed
qed

lemma tables_distinct: "distinct people" "distinct products"
  by (simp_all add: people_def products_def)

lemma tables_length: "length people = 10" "length products = 5"
  by (simp_all add: people_def products_def)

text \<open>
  Claim C5. When both tables cover the lists, the generator returns exactly
  \<open>|people| * |products|\<close> records, and their (person, product) pairs, read in order, are
  the pairs of the two lists in person-major, product-minor order
  (\<open>List.product\<close>: the first person with every product in table order, then the second
  person, and so on). When the two lists have no repeated name, no pair is repeated and
  every pair has exactly one record. For the script's own tables this gives 50 records,
  one for each pair.
\<close>

theorem collection_shape:
  assumes "set prods \<subseteq> dom scores" and "set persons \<subseteq> dom biases"
  shows "(\<exists>rs g'. generate normal scores biases persons prods g = Inr (rs, g') \<and>
            length rs = length persons * length prods \<and>
            map pair_of rs = List.product persons prods \<and>
            (distinct persons \<and> distinct prods \<longrightarrow>
               distinct (map pair_of rs) \<and>
               (\<forall>p \<in> set persons. \<forall>q \<in> set prods.
                  length (filter (\<lambda>r. pair_of r = (p, q)) rs) = 1))) \<and>
         (\<exists>rs g'. generate normal product_base_scores person_bias people products g = Inr (rs, g') \<and>
            length rs = 50 \<and>
            map pair_of rs = List.product people products \<and>
            distinct (map pair_of rs) \<and>
            (\<forall>p \<in> set people. \<forall>q \<in> set products.
               length (filter (\<lambda>r. pair_of r = (p, q)) rs) = 1))"
proof -
  have shape: "\<exists>rs g'. generate normal scores' biases' persons' prods' g = Inr (rs, g') \<and>
            length rs = length persons' * length prods' \<and>
            map pair_of rs = List.product persons' prods' \<and>
            (distinct persons' \<and> distinct prods' \<longrightarrow>
               distinct (map pair_of rs) \<and>
               (\<forall>p \<in> set persons'. \<forall>q \<in> set prods'.
                  length (filter (\<lambda>r. pair_of r = (p, q)) rs) = 1))"
    if cov: "set prods' \<subseteq> dom scores'" "set persons' \<subseteq> dom biases'"
    for scores' biases' :: "string \<rightharpoonup> real" and persons' prods'
  proof -
    let ?n = "length persons' * length prods'"
    let ?rs = "map2 (expected scores' biases') (List.product persons' prods')
                 (fst (draws normal ?n g))"
    let ?g' = "snd (draws normal ?n g)"
    have gen: "generate normal scores' biases' persons' prods' g = Inr (?rs, ?g')"
      by (rule generate_eq [OF cov])
    have len: "length ?rs = ?n"
      by (simp add: length_draws)
    have pairs: "map pair_of ?rs = List.product persons' prods'"
      by (rule generate_pairs [OF cov gen])
    have once: "distinct (map pair_of ?rs) \<and>
               (\<forall>p \<in> set persons'. \<forall>q \<in> set prods'.
                  length (filter (\<lambda>r. pair_of r = (p, q)) ?rs) = 1)"
      if d: "distinct persons' \<and> distinct prods'"
    proof (intro conjI ballI)
      from d show dist: "distinct (map pair_of ?rs)"
        unfolding pairs by (simp add: distinct_product)
      fix p q assume "p \<in> set persons'" "q \<in> set prods'"
      then have "(p, q) \<in> set (map pair_of ?rs)"
        unfolding pairs by simp
      with dist show "length (filter (\<lambda>r. pair_of r = (p, q)) ?rs) = 1"
        by (rule filter_key_distinct)
    qed
    show ?thesis
      by (rule exI [of _ ?rs], rule exI [of _ ?g'], intro conjI impI gen len pairs)
         (use once in blast)+
  qed
  from shape [OF tables_covered] tables_distinct
  have "\<exists>rs g'. generate normal product_base_scores person_bias people products g = Inr (rs, g') \<and>
            length rs = 50 \<and>
            map pair_of rs = List.product people products \<and>
            distinct (map pair_of rs) \<and>
            (\<forall>p \<in> set people. \<forall>q \<in> set products.
               length (filter (\<lambda>r. pair_of r = (p, q)) rs) = 1)"
    by (simp only: tables_length simp_thms) simp
  with shape [OF assms] show ?thesis by (rule conjI)
qed

theorem collection_shape_witness:
  "set [''Tablet Mini'', ''Smart Watch''] \<subseteq> dom product_base_scores \<and>
   set [''Bob'', ''Alice''] \<subseteq> dom person_bias \<and>
   distinct [''Bob'', ''Alice''] \<and> distinct [''Tablet Mini'', ''Smart Watch''] \<and>
   (\<exists>rs g'. generate quarters product_base_scores person_bias [''Bob'', ''Alice'']
               [''Tablet Mini'', ''Smart Watch''] 0 = Inr (rs, g') \<and>
      length rs = 4 \<and>
      map pair_of rs = [(''Bob'', ''Tablet Mini''), (''Bob'', ''Smart Watch''),
                        (''Alice'', ''Tablet Mini''), (''Alice'', ''Smart Watch'')] \<and>
      distinct (map pair_of rs) \<and>
      length (filter (\<lambda>r. pair_of r = (''Alice'', ''Tablet Mini'')) rs) = 1)"
proof -
  have cov: "set [''Tablet Mini'', ''Smart Watch''] \<subseteq> dom product_base_scores"
    "set [''Bob'', ''Alice''] \<subseteq> dom person_bias"
    by (simp_all add: product_base_scores_def person_bias_def)
  have dist: "distinct [''Bob'', ''Alice''] \<and> distinct [''Tablet Mini'', ''Smart Watch'']"
    by simp
  from collection_shape [OF cov, of quarters 0]
  obtain rs g' where
    gen: "generate quarters product_base_scores person_bias [''Bob'', ''Alice'']
               [''Tablet Mini'', ''Smart Watch''] 0 = Inr (rs, g')"
    and len: "length rs = length [''Bob'', ''Alice''] * length [''Tablet Mini'', ''Smart Watch'']"
    and pairs: "map pair_of rs = List.product [''Bob'', ''Alice''] [''Tablet Mini'', ''Smart Watch'']"
    and once: "distinct [''Bob'', ''Alice''] \<and> distinct [''Tablet Mini'', ''Smart Watch''] \<longrightarrow>
               distinct (map pair_of rs) \<and>
               (\<forall>p \<in> set [''Bob'', ''Alice'']. \<forall>q \<in> set [''Tablet Mini'', ''Smart Watch''].
                  length (filter (\<lambda>r. pair_of r = (p, q)) rs) = 1)"
    by (elim conjE exE)
  from once dist have d: "distinct (map pair_of rs)"
    and f: "\<forall>p \<in> set [''Bob'', ''Alice'']. \<forall>q \<in> set [''Tablet Mini'', ''Smart Watch''].
                  length (filter (\<lambda>r. pair_of r = (p, q)) rs) = 1"
    by blast+
  from f have f1: "length (filter (\<lambda>r. pair_of r = (''Alice'', ''Tablet Mini'')) rs) = 1"
    by simp
  from len have len4: "length rs = 4" by simp
  from pairs have pairs': "map pair_of rs = [(''Bob'', ''Tablet Mini''), (''Bob'', ''Smart Watch''),
                        (''Alice'', ''Tablet Mini''), (''Alice'', ''Smart Watch'')]"
    by simp
  from cov dist gen len4 pairs' d f1 show ?thesis
    by (intro conjI exI [of _ rs] exI [of _ g']) blast+
qed

section \<open>The script as a whole\<close>

lemma keys_are_pairs: "map (\<lambda>r. (Person r, Product r)) rs = map pair_of rs"
  by (simp add: pair_of_def)

lemma generate_tables:
  "generate normal product_base_scores person_bias people products g =
     Inr (expected_frame normal g, snd (draws normal (length people * length products) g))"
  unfolding expected_frame_def by (rule generate_eq [OF tables_covered])

lemma expected_frame_pairs: "map pair_of (expected_frame normal g) = List.product people products"
  by (rule generate_pairs [OF tables_covered generate_tables])

lemma expected_frame_distinct: "distinct (map pair_of (expected_frame normal g))"
  by (simp only: expected_frame_pairs distinct_product tables_distinct)

lemma length_expected_frame: "length (expected_frame normal g) = 50"
proof -
  have "length (map pair_of (expected_frame normal g)) = length (List.product people products)"
    by (simp only: expected_frame_pairs)
  then show ?thesis by (simp add: tables_length)
qed

lemma expected_frame_nonempty: "expected_frame normal g \<noteq> []"
  using length_expected_frame [of normal g] by (metis length_0_conv zero_neq_numeral)

lemma pivot_distinct:
  "distinct (map pair_of rs) \<Longrightarrow>
   pivot rs = Inr \<lparr>index = sort (remdups (map Person rs)),
                   columns = sort (remdups (map Product rs)),
                   cells = map_of (map (\<lambda>r. ((Person r, Product r), Rating r)) rs)\<rparr>"
  by (simp add: pivot_def keys_are_pairs)

lemma script_result:
  fixes rt :: "('g, 'h) runtime" and w0 :: "('g, 'h) world"
  obtains rep w' where
    "script rt np_seed py_seed w0 = Inr (rep, w')"
    "frame rep = expected_frame (np_random_normal rt 0 0.3) (np_random_seed rt np_seed)"
    "person_lines rep = person_summary (frame rep)"
    "product_lines rep = product_summary (frame rep)"
    "pivot (frame rep) = Inr (matrix rep)"
    "np_random_state w' =
       snd (draws (np_random_normal rt 0 0.3) (length people * length products)
              (np_random_seed rt np_seed))"
    "random_state w' = random_seed rt py_seed"
    "files w' = (files w0)(''product_ratings.csv'' \<mapsto> to_csv (float_str rt) False (frame rep))"
proof -
  let ?normal = "np_random_normal rt 0 0.3"
  let ?g = "np_random_seed rt np_seed"
  let ?rs = "expected_frame ?normal ?g"
  let ?pt = "\<lparr>index = sort (remdups (map Person ?rs)),
             columns = sort (remdups (map Product ?rs)),
             cells = map_of (map (\<lambda>r. ((Person r, Product r), Rating r)) ?rs)\<rparr>"
  let ?rep = "\<lparr>frame = ?rs, person_lines = person_summary ?rs,
              product_lines = product_summary ?rs, matrix = ?pt\<rparr>"
  let ?w = "w0\<lparr>np_random_state := snd (draws ?normal (length people * length products) ?g),
              random_state := random_seed rt py_seed,
              files := (files w0)(''product_ratings.csv'' \<mapsto> to_csv (float_str rt) False ?rs)\<rparr>"
  have piv: "pivot ?rs = Inr ?pt"
    by (rule pivot_distinct [OF expected_frame_distinct])
  have "script rt np_seed py_seed w0 = Inr (?rep, ?w)"
    unfolding script_def Let_def by (simp add: generate_tables piv expected_frame_nonempty)
  moreover have "frame ?rep = ?rs" "person_lines ?rep = person_summary (frame ?rep)"
    "product_lines ?rep = product_summary (frame ?rep)" "pivot (frame ?rep) = Inr (matrix ?rep)"
    using piv by simp_all
  moreover have "np_random_state ?w = snd (draws ?normal (length people * length products) ?g)"
    "random_state ?w = random_seed rt py_seed"
    "files ?w = (files w0)(''product_ratings.csv'' \<mapsto> to_csv (float_str rt) False (frame ?rep))"
    by simp_all
  ultimately show thesis by (rule that)
qed

section \<open>The summaries\<close>

lemma set_sort_values_desc: "set (sort_values_desc s) = set s"
  by (simp add: sort_values_desc_def)

lemma distinct_sort_values_desc: "distinct (sort_values_desc s) = distinct s"
  by (simp add: sort_values_desc_def)

lemma descending_sort_values_desc: "sorted_wrt (\<ge>) (map snd (sort_values_desc s))"
proof -
  have "sorted (map snd (sort_key snd (rev s)))"
    by (rule sorted_sort_key)
  then have "sorted_wrt (\<ge>) (rev (map snd (sort_key snd (rev s))))"
    by (simp add: sorted_wrt_rev)
  then show ?thesis
    by (simp add: sort_values_desc_def rev_map)
qed

lemma groupby_mean_keys: "map fst (groupby_mean col df) = sort (remdups (map col df))"
  by (simp add: groupby_mean_def comp_def)

lemma groupby_mean_entry:
  "(k, m) \<in> set (groupby_mean col df) \<longleftrightarrow>
     k \<in> col ` set df \<and> m = mean (map Rating (filter (\<lambda>r. col r = k) df))"
  by (auto simp: groupby_mean_def)

lemma distinct_map_fst_sort_values_desc:
  "distinct (map fst (sort_values_desc s)) = distinct (map fst s)"
  by (simp add: distinct_map distinct_sort_values_desc set_sort_values_desc)

text \<open>The labelled, sorted summary for any grouping column and any labelling.\<close>

lemma summary_entries:
  assumes "(k, m, l) \<in> set (map (\<lambda>(k, a). (k, a, lab a)) (sort_values_desc (groupby_mean col df)))"
  shows "k \<in> col ` set df \<and> m = mean (map Rating (filter (\<lambda>r. col r = k) df)) \<and> l = lab m"
proof -
  from assms have "(k, m) \<in> set (groupby_mean col df)" and "l = lab m"
    by (auto simp: set_sort_values_desc)
  then show ?thesis by (simp add: groupby_mean_entry)
qed

lemma summary_keys:
  "distinct (map fst (map (\<lambda>(k, a). (k, a, lab a)) (sort_values_desc (groupby_mean col df)))) \<and>
   set (map fst (map (\<lambda>(k, a). (k, a, lab a)) (sort_values_desc (groupby_mean col df)))) =
     col ` set df"
proof -
  have eq: "map fst (map (\<lambda>(k, a). (k, a, lab a)) s) = map fst s" for s :: "(string \<times> real) list"
    by (induction s) auto
  have "distinct (map fst (groupby_mean col df))"
    by (simp add: groupby_mean_keys)
  moreover have "set (map fst (sort_values_desc (groupby_mean col df))) = col ` set df"
  proof -
    have "set (map fst (sort_values_desc (groupby_mean col df))) =
          set (map fst (groupby_mean col df))"
      by (simp only: set_map set_sort_values_desc)
    also have "\<dots> = col ` set df"
      by (simp add: groupby_mean_keys)
    finally show ?thesis .
  qed
  ultimately show ?thesis
    by (simp only: eq distinct_map_fst_sort_values_desc) 
qed

lemma summary_descending:
  "sorted_wrt (\<ge>) (map (fst \<circ> snd)
     (map (\<lambda>(k, a). (k, a, lab a)) (sort_values_desc (groupby_mean col df))))"
proof -
  have eq: "map (fst \<circ> snd) (map (\<lambda>(k, a). (k, a, lab a)) s) = map snd s"
    for s :: "(string \<times> real) list"
    by (induction s) auto
  show ?thesis
    by (simp only: eq descending_sort_values_desc)
qed

text \<open>
  Claim C6. The per-person summary has one line for each person of the collection; the
  mean of a line is the sum of that person's ratings divided by their number; the lines
  are in descending order of mean; and the label of a line is ``generous'' when the mean
  is strictly above 3.5, ``harsh'' when it is strictly below 3.0, ``neutral'' otherwise.
  So 3.6 is generous, 2.9 harsh, 3.2 neutral, and the two bounds 3.5 and 3.0 themselves
  are neutral. The script runs to its end and reports exactly this summary of its
  collection.
\<close>

theorem person_summary_correct:
  "(\<forall>(person, avg_rating, label) \<in> set (person_summary df).
      person \<in> Person ` set df \<and>
      avg_rating = sum_list (map Rating (filter (\<lambda>r. Person r = person) df)) /
                   real (length (filter (\<lambda>r. Person r = person) df)) \<and>
      label = (if avg_rating > 3.5 then ''generous''
               else if avg_rating < 3.0 then ''harsh'' else ''neutral'')) \<and>
   distinct (map fst (person_summary df)) \<and>
   set (map fst (person_summary df)) = Person ` set df \<and>
   sorted_wrt (\<ge>) (map (fst \<circ> snd) (person_summary df)) \<and>
   tendency 3.6 = ''generous'' \<and> tendency 2.9 = ''harsh'' \<and> tendency 3.2 = ''neutral'' \<and>
   tendency 3.5 = ''neutral'' \<and> tendency 3.0 = ''neutral'' \<and>
   (\<exists>rep w'. main rt w0 = Inr (rep, w') \<and> person_lines rep = person_summary (frame rep))"
proof (intro conjI)
  show "\<forall>(person, avg_rating, label) \<in> set (person_summary df).
      person \<in> Person ` set df \<and>
      avg_rating = sum_list (map Rating (filter (\<lambda>r. Person r = person) df)) /
                   real (length (filter (\<lambda>r. Person r = person) df)) \<and>
      label = (if avg_rating > 3.5 then ''generous''
               else if avg_rating < 3.0 then ''harsh'' else ''neutral'')"
  proof (intro ballI, clarify)
    fix k m l assume "(k, m, l) \<in> set (person_summary df)"
    then have "k \<in> Person ` set df \<and>
        m = mean (map Rating (filter (\<lambda>r. Person r = k) df)) \<and> l = tendency m"
      unfolding person_summary_def Let_def by (rule summary_entries)
    then show "k \<in> Person ` set df \<and>
      m = sum_list (map Rating (filter (\<lambda>r. Person r = k) df)) /
          real (length (filter (\<lambda>r. Person r = k) df)) \<and>
      l = (if m > 3.5 then ''generous'' else if m < 3.0 then ''harsh'' else ''neutral'')"
      by (simp add: mean_def tendency_def)
  qed
  show "distinct (map fst (person_summary df))"
    unfolding person_summary_def Let_def using summary_keys by blast
  show "set (map fst (person_summary df)) = Person ` set df"
    unfolding person_summary_def Let_def using summary_keys by blast
  show "sorted_wrt (\<ge>) (map (fst \<circ> snd) (person_summary df))"
    unfolding person_summary_def Let_def by (rule summary_descending)
  show "tendency 3.6 = ''generous''" "tendency 2.9 = ''harsh''" "tendency 3.2 = ''neutral''"
    "tendency 3.5 = ''neutral''" "tendency 3.0 = ''neutral''"
    by (simp_all add: tendency_def)
  show "\<exists>rep w'. main rt w0 = Inr (rep, w') \<and> person_lines rep = person_summary (frame rep)"
    unfolding main_def using script_result [of rt 42 42 w0] by metis
qed

theorem person_summary_correct_witness:
  "person_summary
     [\<lparr>Person = ''Bob'', Product = ''Smart Watch'', Rating = 2.5\<rparr>,
      \<lparr>Person = ''Alice'', Product = ''Smart Watch'', Rating = 4.5\<rparr>,
      \<lparr>Person = ''Bob'', Product = ''Tablet Mini'', Rating = 3\<rparr>,
      \<lparr>Person = ''Alice'', Product = ''Tablet Mini'', Rating = 3.5\<rparr>] =
     [(''Alice'', 4, ''generous''), (''Bob'', 11 / 4, ''harsh'')] \<and>
   (4 :: real) = (4.5 + 3.5) / 2 \<and> (11 / 4 :: real) = (2.5 + 3) / 2 \<and>
   sorted_wrt (\<ge>) [4 :: real, 11 / 4]"
proof -
  let ?df = "[\<lparr>Person = ''Bob'', Product = ''Smart Watch'', Rating = 2.5\<rparr>,
      \<lparr>Person = ''Alice'', Product = ''Smart Watch'', Rating = 4.5\<rparr>,
      \<lparr>Person = ''Bob'', Product = ''Tablet Mini'', Rating = 3\<rparr>,
      \<lparr>Person = ''Alice'', Product = ''Tablet Mini'', Rating = 3.5\<rparr>]"
  have val: "person_summary ?df = [(''Alice'', 4, ''generous''), (''Bob'', 11 / 4, ''harsh'')]"
    by (simp add: person_summary_def sort_values_desc_def groupby_mean_def mean_def tendency_def)
  from person_summary_correct [of ?df]
  have "(\<forall>(person, avg_rating, label) \<in> set (person_summary ?df).
      person \<in> Person ` set ?df \<and>
      avg_rating = sum_list (map Rating (filter (\<lambda>r. Person r = person) ?df)) /
                   real (length (filter (\<lambda>r. Person r = person) ?df)) \<and>
      label = (if avg_rating > 3.5 then ''generous''
               else if avg_rating < 3.0 then ''harsh'' else ''neutral'')) \<and>
      sorted_wrt (\<ge>) (map (fst \<circ> snd) (person_summary ?df))"
    by blast
  then show ?thesis
    unfolding val by simp
qed

text \<open>
  Claim C7. The per-product summary has one line for each product of the collection; the
  mean of a line is the sum of that product's ratings divided by their number; the lines
  are in descending order of mean; and the label of a line is ``excellent'' when the mean
  is strictly above 4.0, else ``good'' when strictly above 3.5, else ``average'' when
  strictly above 3.0, else ``poor''. So the bounds 4.0, 3.5 and 3.0 themselves are good,
  average and poor. The script runs to its end and reports exactly this summary of its
  collection.
\<close>

theorem product_summary_correct:
  "(\<forall>(product, avg_rating, label) \<in> set (product_summary df).
      product \<in> Product ` set df \<and>
      avg_rating = sum_list (map Rating (filter (\<lambda>r. Product r = product) df)) /
                   real (length (filter (\<lambda>r. Product r = product) df)) \<and>
      label = (if avg_rating > 4.0 then ''excellent''
               else if avg_rating > 3.5 then ''good''
               else if avg_rating > 3.0 then ''average'' else ''poor'')) \<and>
   distinct (map fst (product_summary df)) \<and>
   set (map fst (product_summary df)) = Product ` set df \<and>
   sorted_wrt (\<ge>) (map (fst \<circ> snd) (product_summary df)) \<and>
   quality 4.0 = ''good'' \<and> quality 3.5 = ''average'' \<and> quality 3.0 = ''poor'' \<and>
   (\<exists>rep w'. main rt w0 = Inr (rep, w') \<and> product_lines rep = product_summary (frame rep))"
proof (intro conjI)
  show "\<forall>(product, avg_rating, label) \<in> set (product_summary df).
      product \<in> Product ` set df \<and>
      avg_rating = sum_list (map Rating (filter (\<lambda>r. Product r = product) df)) /
                   real (length (filter (\<lambda>r. Product r = product) df)) \<and>
      label = (if avg_rating > 4.0 then ''excellent''
               else if avg_rating > 3.5 then ''good''
               else if avg_rating > 3.0 then ''average'' else ''poor'')"
  proof (intro ballI, clarify)
    fix k m l assume "(k, m, l) \<in> set (product_summary df)"
    then have "k \<in> Product ` set df \<and>
        m = mean (map Rating (filter (\<lambda>r. Product r = k) df)) \<and> l = quality m"
      unfolding product_summary_def Let_def by (rule summary_entries)
    then show "k \<in> Product ` set df \<and>
      m = sum_list (map Rating (filter (\<lambda>r. Product r = k) df)) /
          real (length (filter (\<lambda>r. Product r = k) df)) \<and>
      l = (if m > 4.0 then ''excellent'' else if m > 3.5 then ''good''
           else if m > 3.0 then ''average'' else ''poor'')"
      by (simp add: mean_def quality_def)
  qed
  show "distinct (map fst (product_summary df))"
    unfolding product_summary_def Let_def using summary_keys by blast
  show "set (map fst (product_summary df)) = Product ` set df"
    unfolding product_summary_def Let_def using summary_keys by blast
  show "sorted_wrt (\<ge>) (map (fst \<circ> snd) (product_summary df))"
    unfolding product_summary_def Let_def by (rule summary_descending)
  show "quality 4.0 = ''good''" "quality 3.5 = ''average''" "quality 3.0 = ''poor''"
    by (simp_all add: quality_def)
  show "\<exists>rep w'. main rt w0 = Inr (rep, w') \<and> product_lines rep = product_summary (frame rep)"
    unfolding main_def using script_result [of rt 42 42 w0] by metis
qed

theorem product_summary_correct_witness:
  "product_summary
     [\<lparr>Person = ''Bob'', Product = ''Smart Watch'', Rating = 3.5\<rparr>,
      \<lparr>Person = ''Bob'', Product = ''Laptop Pro'', Rating = 4.5\<rparr>,
      \<lparr>Person = ''Bob'', Product = ''Tablet Mini'', Rating = 2\<rparr>,
      \<lparr>Person = ''Alice'', Product = ''Smart Watch'', Rating = 4\<rparr>,
      \<lparr>Person = ''Alice'', Product = ''Laptop Pro'', Rating = 5\<rparr>,
      \<lparr>Person = ''Alice'', Product = ''Tablet Mini'', Rating = 4\<rparr>] =
     [(''Laptop Pro'', 19 / 4, ''excellent''), (''Smart Watch'', 15 / 4, ''good''),
      (''Tablet Mini'', 3, ''poor'')] \<and>
   (19 / 4 :: real) = (4.5 + 5) / 2 \<and> (15 / 4 :: real) = (3.5 + 4) / 2 \<and>
   (3 :: real) = (2 + 4) / 2 \<and>
   sorted_wrt (\<ge>) [19 / 4 :: real, 15 / 4, 3]"
proof -
  let ?df = "[\<lparr>Person = ''Bob'', Product = ''Smart Watch'', Rating = 3.5\<rparr>,
      \<lparr>Person = ''Bob'', Product = ''Laptop Pro'', Rating = 4.5\<rparr>,
      \<lparr>Person = ''Bob'', Product = ''Tablet Mini'', Rating = 2\<rparr>,
      \<lparr>Person = ''Alice'', Product = ''Smart Watch'', Rating = 4\<rparr>,
      \<lparr>Person = ''Alice'', Product = ''Laptop Pro'', Rating = 5\<rparr>,
      \<lparr>Person = ''Alice'', Product = ''Tablet Mini'', Rating = 4\<rparr>]"
  have val: "product_summary ?df =
     [(''Laptop Pro'', 19 / 4, ''excellent''), (''Smart Watch'', 15 / 4, ''good''),
      (''Tablet Mini'', 3, ''poor'')]"
    by (simp add: product_summary_def sort_values_desc_def groupby_mean_def mean_def quality_def)
  from product_summary_correct [of ?df]
  have "(\<forall>(product, avg_rating, label) \<in> set (product_summary ?df).
      product \<in> Product ` set ?df \<and>
      avg_rating = sum_list (map Rating (filter (\<lambda>r. Product r = product) ?df)) /
                   real (length (filter (\<lambda>r. Product r = product) ?df)) \<and>
      label = (if avg_rating > 4.0 then ''excellent''
               else if avg_rating > 3.5 then ''good''
               else if avg_rating > 3.0 then ''average'' else ''poor'')) \<and>
      sorted_wrt (\<ge>) (map (fst \<circ> snd) (product_summary ?df))"
    by blast
  then show ?thesis
    unfolding val by simp
qed

section \<open>The matrix view\<close>

lemma once_each_distinct:
  "(\<forall>k \<in> set (map f xs). length (filter (\<lambda>r. f r = k) xs) = 1) \<Longrightarrow> distinct (map f xs)"
proof (induction xs)
  case Nil
  then show ?case by simp
next
  case (Cons x xs)
  have "f x \<in> set (map f (x # xs))" by simp
  with Cons.prems have "length (filter (\<lambda>r. f r = f x) (x # xs)) = 1" by blast
  then have none: "filter (\<lambda>r. f r = f x) xs = []" by simp
  then have fresh: "f x \<notin> set (map f xs)"
    by (auto simp: filter_empty_conv)
  have "\<forall>k \<in> set (map f xs). length (filter (\<lambda>r. f r = k) xs) = 1"
  proof
    fix k assume k: "k \<in> set (map f xs)"
    with fresh have "f x \<noteq> k" by auto
    moreover from k have "k \<in> set (map f (x # xs))" by simp
    with Cons.prems have "length (filter (\<lambda>r. f r = k) (x # xs)) = 1" by blast
    ultimately show "length (filter (\<lambda>r. f r = k) xs) = 1" by simp
  qed
  then have "distinct (map f xs)" by (rule Cons.IH)
  with fresh show ?case by simp
qed

lemma one_per_pair_distinct:
  assumes "one_per_pair rs"
  shows "distinct (map pair_of rs)"
proof (rule once_each_distinct, rule ballI)
  fix k assume "k \<in> set (map pair_of rs)"
  then obtain r where r: "r \<in> set rs" and k: "k = pair_of r" by auto
  from r have "fst k \<in> set (map Person rs)" "snd k \<in> set (map Product rs)"
    by (simp_all add: k pair_of_def)
  with assms have "length (filter (\<lambda>r. pair_of r = (fst k, snd k)) rs) = 1"
    unfolding one_per_pair_def by blast
  then show "length (filter (\<lambda>r. pair_of r = k) rs) = 1" by simp
qed

lemma one_per_pair_complete:
  assumes "one_per_pair rs" and "p \<in> set (map Person rs)" and "q \<in> set (map Product rs)"
  shows "(p, q) \<in> set (map pair_of rs)"
proof -
  from assms have "length (filter (\<lambda>r. pair_of r = (p, q)) rs) = 1"
    unfolding one_per_pair_def by blast
  then have "filter (\<lambda>r. pair_of r = (p, q)) rs \<noteq> []" by auto
  then obtain r where "r \<in> set rs" "pair_of r = (p, q)"
    by (auto simp: filter_empty_conv)
  then show ?thesis by force
qed

lemma pivot_fails_iff: "pivot rs = Inl ValueError \<longleftrightarrow> \<not> distinct (map pair_of rs)"
  by (simp add: pivot_def keys_are_pairs)

lemma cells_lookup:
  assumes "distinct (map pair_of rs)"
  shows "map_of (map (\<lambda>r. ((Person r, Product r), Rating r)) rs) (p, q) = Some v \<longleftrightarrow>
           \<lparr>Person = p, Product = q, Rating = v\<rparr> \<in> set rs"
proof -
  let ?kv = "map (\<lambda>r. ((Person r, Product r), Rating r)) rs"
  have keys: "map fst ?kv = map pair_of rs" by (simp add: pair_of_def comp_def)
  from assms have "distinct (map fst ?kv)" by (simp only: keys)
  then have "map_of ?kv (p, q) = Some v \<longleftrightarrow> ((p, q), v) \<in> set ?kv"
    by (rule map_of_eq_Some_iff)
  also have "\<dots> \<longleftrightarrow> (\<exists>r \<in> set rs. Person r = p \<and> Product r = q \<and> Rating r = v)"
    by auto
  also have "\<dots> \<longleftrightarrow> \<lparr>Person = p, Product = q, Rating = v\<rparr> \<in> set rs"
  proof
    assume "\<exists>r \<in> set rs. Person r = p \<and> Product r = q \<and> Rating r = v"
    then obtain r where "r \<in> set rs" "Person r = p" "Product r = q" "Rating r = v" by blast
    moreover from this have "r = \<lparr>Person = p, Product = q, Rating = v\<rparr>" by simp
    ultimately show "\<lparr>Person = p, Product = q, Rating = v\<rparr> \<in> set rs" by simp
  next
    assume "\<lparr>Person = p, Product = q, Rating = v\<rparr> \<in> set rs"
    then show "\<exists>r \<in> set rs. Person r = p \<and> Product r = q \<and> Rating r = v"
      by (intro bexI [of _ "\<lparr>Person = p, Product = q, Rating = v\<rparr>"]) simp_all
  qed
  finally show ?thesis .
qed

lemma cells_empty:
  "map_of (map (\<lambda>r. ((Person r, Product r), Rating r)) rs) k = None \<longleftrightarrow>
     k \<notin> set (map pair_of rs)"
proof -
  have "map fst (map (\<lambda>r. ((Person r, Product r), Rating r)) rs) = map pair_of rs"
    by (simp add: pair_of_def comp_def)
  then have "fst ` set (map (\<lambda>r. ((Person r, Product r), Rating r)) rs) = set (map pair_of rs)"
    by (metis set_map)
  then show ?thesis
    by (simp only: map_of_eq_None_iff)
qed

lemma cell_list_mem:
  "r \<in> set (case c of None \<Rightarrow> [] | Some v \<Rightarrow> [f v]) \<longleftrightarrow> (\<exists>v. c = Some v \<and> r = f v)"
  by (cases c) auto

lemma in_row:
  "r \<in> set (concat (map (\<lambda>q. case f q of None \<Rightarrow> [] | Some v \<Rightarrow> [g q v]) qs)) \<longleftrightarrow>
     (\<exists>q \<in> set qs. \<exists>v. f q = Some v \<and> r = g q v)"
  unfolding set_concat set_map UN_iff bex_simps image_iff
  by (simp only: cell_list_mem)

lemma in_flatten_ex:
  "r \<in> set (flatten pt) \<longleftrightarrow>
     (\<exists>p \<in> set (index pt). \<exists>q \<in> set (columns pt). \<exists>v.
        cells pt (p, q) = Some v \<and> r = \<lparr>Person = p, Product = q, Rating = v\<rparr>)"
proof -
  have "r \<in> set (flatten pt) \<longleftrightarrow>
        (\<exists>p \<in> set (index pt). r \<in> set (concat (map (\<lambda>q. case cells pt (p, q) of None \<Rightarrow> []
             | Some v \<Rightarrow> [\<lparr>Person = p, Product = q, Rating = v\<rparr>]) (columns pt))))"
    by (simp add: flatten_def)
  also have "\<dots> \<longleftrightarrow> (\<exists>p \<in> set (index pt). \<exists>q \<in> set (columns pt). \<exists>v.
        cells pt (p, q) = Some v \<and> r = \<lparr>Person = p, Product = q, Rating = v\<rparr>)"
    by (simp only: in_row)
  finally show ?thesis .
qed

lemma in_flatten:
  "r \<in> set (flatten pt) \<longleftrightarrow>
     Person r \<in> set (index pt) \<and> Product r \<in> set (columns pt) \<and>
     cells pt (Person r, Product r) = Some (Rating r)"
proof
  assume "r \<in> set (flatten pt)"
  then obtain p q v where "p \<in> set (index pt)" "q \<in> set (columns pt)"
    "cells pt (p, q) = Some v" "r = \<lparr>Person = p, Product = q, Rating = v\<rparr>"
    unfolding in_flatten_ex by blast
  then show "Person r \<in> set (index pt) \<and> Product r \<in> set (columns pt) \<and>
     cells pt (Person r, Product r) = Some (Rating r)" by simp
next
  assume a: "Person r \<in> set (index pt) \<and> Product r \<in> set (columns pt) \<and>
     cells pt (Person r, Product r) = Some (Rating r)"
  have "r = \<lparr>Person = Person r, Product = Product r, Rating = Rating r\<rparr>" by simp
  with a show "r \<in> set (flatten pt)"
    unfolding in_flatten_ex by blast
qed

lemma pair_of_flatten:
  "map pair_of (flatten pt) =
     filter (\<lambda>k. cells pt k \<noteq> None) (List.product (index pt) (columns pt))"
proof -
  have row: "map pair_of (concat (map (\<lambda>q. case f (p, q) of None \<Rightarrow> []
                 | Some v \<Rightarrow> [\<lparr>Person = p, Product = q, Rating = v\<rparr>]) qs)) =
             filter (\<lambda>k. f k \<noteq> None) (map (Pair p) qs)"
    for f :: "string \<times> string \<rightharpoonup> real" and p qs
    by (induction qs) (auto simp: pair_of_def split: option.splits)
  have "map pair_of (concat (map (\<lambda>p. concat (map (\<lambda>q. case f (p, q) of None \<Rightarrow> []
                 | Some v \<Rightarrow> [\<lparr>Person = p, Product = q, Rating = v\<rparr>]) qs)) ps)) =
        filter (\<lambda>k. f k \<noteq> None) (List.product ps qs)"
    for f :: "string \<times> string \<rightharpoonup> real" and ps qs
    by (induction ps) (simp_all add: row)
  then show ?thesis by (simp add: flatten_def)
qed

lemma distinct_flatten:
  assumes "distinct (index pt)" and "distinct (columns pt)"
  shows "distinct (flatten pt)"
proof -
  from assms have "distinct (map pair_of (flatten pt))"
    by (simp add: pair_of_flatten distinct_product)
  then show ?thesis by (simp add: distinct_map)
qed

lemma pivot_roundtrip:
  assumes d: "distinct (map pair_of rs)"
  obtains pt where "pivot rs = Inr pt" "set (flatten pt) = set rs"
    "length (flatten pt) = length rs"
    "index pt = sort (remdups (map Person rs))" "columns pt = sort (remdups (map Product rs))"
    "\<And>k. cells pt k = None \<longleftrightarrow> k \<notin> set (map pair_of rs)"
proof -
  let ?pt = "\<lparr>index = sort (remdups (map Person rs)),
             columns = sort (remdups (map Product rs)),
             cells = map_of (map (\<lambda>r. ((Person r, Product r), Rating r)) rs)\<rparr>"
  have piv: "pivot rs = Inr ?pt" by (rule pivot_distinct [OF d])
  have mem: "r \<in> set (flatten ?pt) \<longleftrightarrow> r \<in> set rs" for r
  proof -
    have e: "\<lparr>Person = Person r, Product = Product r, Rating = Rating r\<rparr> = r" by simp
    have "r \<in> set rs \<longleftrightarrow>
        map_of (map (\<lambda>r. ((Person r, Product r), Rating r)) rs) (Person r, Product r) =
          Some (Rating r)"
      using cells_lookup [OF d, of "Person r" "Product r" "Rating r"] by (simp only: e)
    moreover have "r \<in> set rs \<Longrightarrow> Person r \<in> set (map Person rs) \<and> Product r \<in> set (map Product rs)"
      by simp
    ultimately show ?thesis
      unfolding in_flatten by (simp only: pivot_table.simps set_sort set_remdups) blast
  qed
  then have sets: "set (flatten ?pt) = set rs" by blast
  have "distinct (flatten ?pt)" by (rule distinct_flatten) simp_all
  moreover from d have "distinct rs" by (simp add: distinct_map)
  ultimately have "card (set (flatten ?pt)) = length (flatten ?pt)" "card (set rs) = length rs"
    by (simp_all only: distinct_card)
  with sets have "length (flatten ?pt) = length rs" by simp
  with piv sets show thesis
    by (intro that [of ?pt]) (simp_all add: cells_empty)
qed

text \<open>
  Claim C3, as stated, fails on the script's reshape. A collection of two records,
  (Alice, Laptop Pro) and (Bob, Tablet Mini), lacks the pairs (Alice, Tablet Mini) and
  (Bob, Laptop Pro), so it does not hold exactly one record per pair; yet \<open>pivot\<close> returns
  a table, whose cell (Alice, Tablet Mini) is empty.
\<close>

theorem pivot_missing_pair_counterexample:
  "\<not> one_per_pair
       [\<lparr>Person = ''Alice'', Product = ''Laptop Pro'', Rating = 4\<rparr>,
        \<lparr>Person = ''Bob'', Product = ''Tablet Mini'', Rating = 3\<rparr>] \<and>
   pivot [\<lparr>Person = ''Alice'', Product = ''Laptop Pro'', Rating = 4\<rparr>,
          \<lparr>Person = ''Bob'', Product = ''Tablet Mini'', Rating = 3\<rparr>] =
     Inr \<lparr>index = [''Alice'', ''Bob''],
          columns = [''Laptop Pro'', ''Tablet Mini''],
          cells = map_of [((''Alice'', ''Laptop Pro''), 4), ((''Bob'', ''Tablet Mini''), 3)]\<rparr> \<and>
   map_of [((''Alice'', ''Laptop Pro''), 4 :: real), ((''Bob'', ''Tablet Mini''), 3)]
     (''Alice'', ''Tablet Mini'') = None \<and>
   filter (\<lambda>r. pair_of r = (''Alice'', ''Tablet Mini''))
     [\<lparr>Person = ''Alice'', Product = ''Laptop Pro'', Rating = 4\<rparr>,
      \<lparr>Person = ''Bob'', Product = ''Tablet Mini'', Rating = 3\<rparr>] = []"
  by (simp add: one_per_pair_def pair_of_def pivot_def)

text \<open>
  Claim C3, amended. The matrix-view construction fails, with the shape error and no
  other, exactly when some (person, product) pair occurs in more than one record. When no
  pair is repeated it succeeds, and a cell of the table is empty exactly when the
  collection has no record for its pair. In particular it succeeds when every pair occurs
  exactly once.
\<close>

theorem pivot_fails_exactly_on_duplicates:
  "(pivot df = Inl ValueError \<longleftrightarrow> \<not> distinct (map pair_of df)) \<and>
   (\<forall>e. pivot df = Inl e \<longrightarrow> e = ValueError) \<and>
   (distinct (map pair_of df) \<longrightarrow>
      (\<exists>pt. pivot df = Inr pt \<and> (\<forall>k. cells pt k = None \<longleftrightarrow> k \<notin> set (map pair_of df)))) \<and>
   (one_per_pair df \<longrightarrow> (\<exists>pt. pivot df = Inr pt))"
proof (intro conjI allI impI)
  show "pivot df = Inl ValueError \<longleftrightarrow> \<not> distinct (map pair_of df)"
    by (rule pivot_fails_iff)
  show "e = ValueError" if "pivot df = Inl e" for e
    using that by (simp add: pivot_def split: if_splits)
  show "\<exists>pt. pivot df = Inr pt \<and> (\<forall>k. cells pt k = None \<longleftrightarrow> k \<notin> set (map pair_of df))"
    if "distinct (map pair_of df)"
    using pivot_roundtrip [OF that] by metis
  show "\<exists>pt. pivot df = Inr pt" if "one_per_pair df"
    using pivot_roundtrip [OF one_per_pair_distinct [OF that]] by metis
qed

theorem pivot_fails_exactly_on_duplicates_witness:
  "\<not> distinct (map pair_of
       [\<lparr>Person = ''Alice'', Product = ''Laptop Pro'', Rating = 4\<rparr>,
        \<lparr>Person = ''Alice'', Product = ''Laptop Pro'', Rating = 3\<rparr>]) \<and>
   pivot [\<lparr>Person = ''Alice'', Product = ''Laptop Pro'', Rating = 4\<rparr>,
          \<lparr>Person = ''Alice'', Product = ''Laptop Pro'', Rating = 3\<rparr>] = Inl ValueError \<and>
   distinct (map pair_of
       [\<lparr>Person = ''Alice'', Product = ''Laptop Pro'', Rating = 4\<rparr>,
        \<lparr>Person = ''Bob'', Product = ''Tablet Mini'', Rating = 3\<rparr>]) \<and>
   (\<exists>pt. pivot [\<lparr>Person = ''Alice'', Product = ''Laptop Pro'', Rating = 4\<rparr>,
                 \<lparr>Person = ''Bob'', Product = ''Tablet Mini'', Rating = 3\<rparr>] = Inr pt \<and>
         cells pt (''Alice'', ''Tablet Mini'') = None)"
proof -
  let ?dup = "[\<lparr>Person = ''Alice'', Product = ''Laptop Pro'', Rating = 4\<rparr>,
               \<lparr>Person = ''Alice'', Product = ''Laptop Pro'', Rating = 3\<rparr>]"
  let ?gap = "[\<lparr>Person = ''Alice'', Product = ''Laptop Pro'', Rating = 4\<rparr>,
               \<lparr>Person = ''Bob'', Product = ''Tablet Mini'', Rating = 3\<rparr>]"
  have dup: "\<not> distinct (map pair_of ?dup)" by (simp add: pair_of_def)
  have gap: "distinct (map pair_of ?gap)" by (simp add: pair_of_def)
  have absent: "(''Alice'', ''Tablet Mini'') \<notin> set (map pair_of ?gap)" by (simp add: pair_of_def)
  from pivot_fails_exactly_on_duplicates [of ?dup] dup
  have fails: "pivot ?dup = Inl ValueError" by blast
  from pivot_fails_exactly_on_duplicates [of ?gap] gap
  obtain pt where "pivot ?gap = Inr pt"
    and "\<forall>k. cells pt k = None \<longleftrightarrow> k \<notin> set (map pair_of ?gap)"
    by blast
  with absent have "\<exists>pt. pivot ?gap = Inr pt \<and> cells pt (''Alice'', ''Tablet Mini'') = None"
    by blast
  with dup fails gap show ?thesis by (intro conjI)
qed

text \<open>
  Claim C8. For a collection with exactly one record per (person, product) pair, the
  matrix view is built, every cell of it is filled, and reading it back cell by cell
  gives exactly the records of the collection, as many as there were. This holds for the
  collection of the script, with its 50 records.
\<close>

theorem pivot_flatten_roundtrip:
  "(one_per_pair df \<longrightarrow>
      (\<exists>pt. pivot df = Inr pt \<and> set (flatten pt) = set df \<and>
            length (flatten pt) = length df \<and>
            (\<forall>p \<in> set (index pt). \<forall>q \<in> set (columns pt). cells pt (p, q) \<noteq> None))) \<and>
   (\<exists>rep w'. main rt w0 = Inr (rep, w') \<and> set (flatten (matrix rep)) = set (frame rep) \<and>
      length (flatten (matrix rep)) = 50)"
proof (intro conjI impI)
  assume one: "one_per_pair df"
  from pivot_roundtrip [OF one_per_pair_distinct [OF one]]
  obtain pt where pt: "pivot df = Inr pt" "set (flatten pt) = set df"
    "length (flatten pt) = length df"
    "index pt = sort (remdups (map Person df))" "columns pt = sort (remdups (map Product df))"
    and empty: "\<And>k. cells pt k = None \<longleftrightarrow> k \<notin> set (map pair_of df)"
    by blast
  have "cells pt (p, q) \<noteq> None" if "p \<in> set (index pt)" "q \<in> set (columns pt)" for p q
  proof -
    from that have "p \<in> set (map Person df)" "q \<in> set (map Product df)"
      by (simp_all add: pt)
    with one have "(p, q) \<in> set (map pair_of df)" by (rule one_per_pair_complete)
    then show ?thesis by (simp only: empty) simp
  qed
  with pt show "\<exists>pt. pivot df = Inr pt \<and> set (flatten pt) = set df \<and>
            length (flatten pt) = length df \<and>
            (\<forall>p \<in> set (index pt). \<forall>q \<in> set (columns pt). cells pt (p, q) \<noteq> None)"
    by blast
next
  obtain rep w' where run: "script rt 42 42 w0 = Inr (rep, w')"
    and fr: "frame rep = expected_frame (np_random_normal rt 0 0.3) (np_random_seed rt 42)"
    and piv: "pivot (frame rep) = Inr (matrix rep)"
    by (rule script_result [of rt 42 42 w0])
  have "distinct (map pair_of (frame rep))"
    unfolding fr by (rule expected_frame_distinct)
  from pivot_roundtrip [OF this]
  obtain pt where "pivot (frame rep) = Inr pt" "set (flatten pt) = set (frame rep)"
    "length (flatten pt) = length (frame rep)"
    by blast
  with piv have "set (flatten (matrix rep)) = set (frame rep)"
    "length (flatten (matrix rep)) = length (frame rep)" by simp_all
  moreover have "length (frame rep) = 50"
    unfolding fr by (rule length_expected_frame)
  ultimately show "\<exists>rep w'. main rt w0 = Inr (rep, w') \<and>
      set (flatten (matrix rep)) = set (frame rep) \<and> length (flatten (matrix rep)) = 50"
    unfolding main_def using run by auto
qed

theorem pivot_flatten_roundtrip_witness:
  "one_per_pair
     [\<lparr>Person = ''Bob'', Product = ''Smart Watch'', Rating = 2.5\<rparr>,
      \<lparr>Person = ''Alice'', Product = ''Smart Watch'', Rating = 4.5\<rparr>,
      \<lparr>Person = ''Bob'', Product = ''Tablet Mini'', Rating = 3\<rparr>,
      \<lparr>Person = ''Alice'', Product = ''Tablet Mini'', Rating = 3.5\<rparr>] \<and>
   (\<exists>pt. pivot
       [\<lparr>Person = ''Bob'', Product = ''Smart Watch'', Rating = 2.5\<rparr>,
        \<lparr>Person = ''Alice'', Product = ''Smart Watch'', Rating = 4.5\<rparr>,
        \<lparr>Person = ''Bob'', Product = ''Tablet Mini'', Rating = 3\<rparr>,
        \<lparr>Person = ''Alice'', Product = ''Tablet Mini'', Rating = 3.5\<rparr>] = Inr pt \<and>
      set (flatten pt) =
        {\<lparr>Person = ''Bob'', Product = ''Smart Watch'', Rating = 2.5\<rparr>,
         \<lparr>Person = ''Alice'', Product = ''Smart Watch'', Rating = 4.5\<rparr>,
         \<lparr>Person = ''Bob'', Product = ''Tablet Mini'', Rating = 3\<rparr>,
         \<lparr>Person = ''Alice'', Product = ''Tablet Mini'', Rating = 3.5\<rparr>} \<and>
      length (flatten pt) = 4)"
proof -
  let ?df = "[\<lparr>Person = ''Bob'', Product = ''Smart Watch'', Rating = 2.5\<rparr>,
      \<lparr>Person = ''Alice'', Product = ''Smart Watch'', Rating = 4.5\<rparr>,
      \<lparr>Person = ''Bob'', Product = ''Tablet Mini'', Rating = 3\<rparr>,
      \<lparr>Person = ''Alice'', Product = ''Tablet Mini'', Rating = 3.5\<rparr>]"
  have one: "one_per_pair ?df"
    by (simp add: one_per_pair_def pair_of_def)
  from pivot_flatten_roundtrip [of ?df] one
  obtain pt where "pivot ?df = Inr pt" "set (flatten pt) = set ?df"
    "length (flatten pt) = length ?df"
    by blast
  then have "pivot ?df = Inr pt \<and> set (flatten pt) = set ?df \<and> length (flatten pt) = 4"
    by simp
  then have "\<exists>pt. pivot ?df = Inr pt \<and> set (flatten pt) = set ?df \<and> length (flatten pt) = 4" ..
  with one show ?thesis by simp
qed

section \<open>Export and reproducibility\<close>

lemma map_enumerate_ignore: "map (\<lambda>(i, r). f r) (enumerate n xs) = map f xs"
  by (induction xs arbitrary: n) simp_all

lemma to_csv_no_index:
  "to_csv fs False df =
     ''Person,Product,Rating'' # map (\<lambda>r. csv_line [Person r, Product r, fs (Rating r)]) df"
proof -
  have header: "csv_field ''Person'' = ''Person''" "csv_field ''Product'' = ''Product''"
    "csv_field ''Rating'' = ''Rating''"
    by (simp_all add: csv_field_def needs_quote_def)
  have "map (\<lambda>(i, r). [] @ [Person r, Product r, fs (Rating r)]) (enumerate 0 df) =
        map (\<lambda>r. [] @ [Person r, Product r, fs (Rating r)]) df"
    by (rule map_enumerate_ignore)
  then show ?thesis
    by (simp add: to_csv_def header comp_def)
qed

lemma names_unquoted:
  "\<forall>p \<in> set people. csv_field p = p" "\<forall>q \<in> set products. csv_field q = q"
  by (simp_all add: people_def products_def csv_field_def needs_quote_def)

lemma expected_frame_names:
  assumes "r \<in> set (expected_frame normal g)"
  shows "Person r \<in> set people \<and> Product r \<in> set products"
proof -
  from assms have "pair_of r \<in> set (map pair_of (expected_frame normal g))" by simp
  then have "pair_of r \<in> set (List.product people products)"
    by (simp only: expected_frame_pairs)
  then show ?thesis by (simp add: pair_of_def)
qed

text \<open>
  Claim C9. Written without the index, a data frame becomes the line
  \<open>Person,Product,Rating\<close> followed by one line per record, in the order of the frame,
  each made of exactly three comma-separated fields: person, product, rating. The script
  runs to its end and leaves in \<open>product_ratings.csv\<close> that header and the 50 lines
  \<open>person,product,rating\<close> of its collection, in generation order (person-major,
  product-minor); no name of the tables needs quoting.
\<close>

theorem csv_export:
  "(\<forall>fs df. to_csv fs False df =
      ''Person,Product,Rating'' # map (\<lambda>r. csv_line [Person r, Product r, fs (Rating r)]) df) \<and>
   (\<exists>rep w'. main rt w0 = Inr (rep, w') \<and>
      files w' ''product_ratings.csv'' =
        Some (''Person,Product,Rating'' #
              map (\<lambda>r. Person r @ '','' @ Product r @ '','' @ csv_field (float_str rt (Rating r)))
                (frame rep)) \<and>
      map pair_of (frame rep) = List.product people products \<and>
      length (frame rep) = 50)"
proof (intro conjI allI)
  fix fs df
  show "to_csv fs False df =
      ''Person,Product,Rating'' # map (\<lambda>r. csv_line [Person r, Product r, fs (Rating r)]) df"
    by (rule to_csv_no_index)
next
  obtain rep w' where run: "script rt 42 42 w0 = Inr (rep, w')"
    and fr: "frame rep = expected_frame (np_random_normal rt 0 0.3) (np_random_seed rt 42)"
    and out: "files w' = (files w0)(''product_ratings.csv'' \<mapsto>
                to_csv (float_str rt) False (frame rep))"
    by (rule script_result [of rt 42 42 w0])
  have "csv_line [Person r, Product r, float_str rt (Rating r)] =
        Person r @ '','' @ Product r @ '','' @ csv_field (float_str rt (Rating r))"
    if "r \<in> set (frame rep)" for r
  proof -
    from that have "Person r \<in> set people \<and> Product r \<in> set products"
      unfolding fr by (rule expected_frame_names)
    with names_unquoted show ?thesis by simp
  qed
  then have "map (\<lambda>r. csv_line [Person r, Product r, float_str rt (Rating r)]) (frame rep) =
             map (\<lambda>r. Person r @ '','' @ Product r @ '','' @ csv_field (float_str rt (Rating r)))
               (frame rep)"
    by (intro map_cong refl)
  with out have "files w' ''product_ratings.csv'' =
        Some (''Person,Product,Rating'' #
              map (\<lambda>r. Person r @ '','' @ Product r @ '','' @ csv_field (float_str rt (Rating r)))
                (frame rep))"
    by (simp only: to_csv_no_index fun_upd_same)
  moreover have "map pair_of (frame rep) = List.product people products"
    unfolding fr by (rule expected_frame_pairs)
  moreover have "length (frame rep) = 50"
    unfolding fr by (rule length_expected_frame)
  ultimately show "\<exists>rep w'. main rt w0 = Inr (rep, w') \<and>
      files w' ''product_ratings.csv'' =
        Some (''Person,Product,Rating'' #
              map (\<lambda>r. Person r @ '','' @ Product r @ '','' @ csv_field (float_str rt (Rating r)))
                (frame rep)) \<and>
      map pair_of (frame rep) = List.product people products \<and>
      length (frame rep) = 50"
    unfolding main_def using run by blast
qed

text \<open>
  Claim C4. Two runs of the script, started in any two process states (whatever the two
  generators held and whatever files existed), both end normally with the same rating
  collection, the same summaries and matrix, and the same exported file content: seeding
  replaces the generator state, and every draw comes from the seeded generator.
\<close>

theorem runs_are_identical:
  "\<exists>rep csv. (\<exists>w1'. main rt w1 = Inr (rep, w1') \<and>
                    files w1' ''product_ratings.csv'' = Some csv) \<and>
              (\<exists>w2'. main rt w2 = Inr (rep, w2') \<and>
                    files w2' ''product_ratings.csv'' = Some csv)"
proof -
  let ?rs = "expected_frame (np_random_normal rt 0 0.3) (np_random_seed rt 42)"
  have same: "rep1 = rep2" if "frame rep1 = ?rs" "frame rep2 = ?rs"
    "person_lines rep1 = person_summary (frame rep1)"
    "person_lines rep2 = person_summary (frame rep2)"
    "product_lines rep1 = product_summary (frame rep1)"
    "product_lines rep2 = product_summary (frame rep2)"
    "pivot (frame rep1) = Inr (matrix rep1)" "pivot (frame rep2) = Inr (matrix rep2)"
    for rep1 rep2 :: report
    using that by (intro report.equality) simp_all
  obtain rep1 w1' where r1: "script rt 42 42 w1 = Inr (rep1, w1')"
    "frame rep1 = ?rs" "person_lines rep1 = person_summary (frame rep1)"
    "product_lines rep1 = product_summary (frame rep1)" "pivot (frame rep1) = Inr (matrix rep1)"
    and f1: "files w1' = (files w1)(''product_ratings.csv'' \<mapsto>
                to_csv (float_str rt) False (frame rep1))"
    by (rule script_result [of rt 42 42 w1])
  obtain rep2 w2' where r2: "script rt 42 42 w2 = Inr (rep2, w2')"
    "frame rep2 = ?rs" "person_lines rep2 = person_summary (frame rep2)"
    "product_lines rep2 = product_summary (frame rep2)" "pivot (frame rep2) = Inr (matrix rep2)"
    and f2: "files w2' = (files w2)(''product_ratings.csv'' \<mapsto>
                to_csv (float_str rt) False (frame rep2))"
    by (rule script_result [of rt 42 42 w2])
  have eq: "rep1 = rep2"
    using r1(2) r2(2) r1(3) r2(3) r1(4) r2(4) r1(5) r2(5) by (rule same)
  from f1 have c1: "files w1' ''product_ratings.csv'' = Some (to_csv (float_str rt) False ?rs)"
    by (simp add: r1(2))
  from f2 have c2: "files w2' ''product_ratings.csv'' = Some (to_csv (float_str rt) False ?rs)"
    by (simp add: r2(2))
  from r1(1) r2(1) eq c1 c2 show ?thesis
    unfolding main_def by blast
qed

text \<open>
  Claim C10. Whatever two values are given to \<open>random.seed\<close>, the script returns the same
  rating collection, summaries and matrix, leaves the same files and the same numpy
  generator state; the two final states differ only in the state of the stdlib generator,
  which nothing reads.
\<close>

theorem stdlib_seed_does_not_matter:
  "\<exists>rep w1' w2'. script rt np_seed py_seed1 w0 = Inr (rep, w1') \<and>
                 script rt np_seed py_seed2 w0 = Inr (rep, w2') \<and>
                 files w1' = files w2' \<and>
                 np_random_state w1' = np_random_state w2' \<and>
                 random_state w1' = random_seed rt py_seed1 \<and>
                 random_state w2' = random_seed rt py_seed2"
proof -
  let ?rs = "expected_frame (np_random_normal rt 0 0.3) (np_random_seed rt np_seed)"
  obtain rep1 w1' where r1: "script rt np_seed py_seed1 w0 = Inr (rep1, w1')"
    "frame rep1 = ?rs" "person_lines rep1 = person_summary (frame rep1)"
    "product_lines rep1 = product_summary (frame rep1)" "pivot (frame rep1) = Inr (matrix rep1)"
    and s1: "np_random_state w1' =
       snd (draws (np_random_normal rt 0 0.3) (length people * length products)
              (np_random_seed rt np_seed))"
      "random_state w1' = random_seed rt py_seed1"
      "files w1' = (files w0)(''product_ratings.csv'' \<mapsto>
                to_csv (float_str rt) False (frame rep1))"
    by (rule script_result [of rt np_seed py_seed1 w0])
  obtain rep2 w2' where r2: "script rt np_seed py_seed2 w0 = Inr (rep2, w2')"
    "frame rep2 = ?rs" "person_lines rep2 = person_summary (frame rep2)"
    "product_lines rep2 = product_summary (frame rep2)" "pivot (frame rep2) = Inr (matrix rep2)"
    and s2: "np_random_state w2' =
       snd (draws (np_random_normal rt 0 0.3) (length people * length products)
              (np_random_seed rt np_seed))"
      "random_state w2' = random_seed rt py_seed2"
      "files w2' = (files w0)(''product_ratings.csv'' \<mapsto>
                to_csv (float_str rt) False (frame rep2))"
    by (rule script_result [of rt np_seed py_seed2 w0])
  have eq: "rep1 = rep2"
    using r1(2-5) r2(2-5) by (intro report.equality) simp_all
  have "files w1' = files w2'" by (simp only: s1(3) s2(3) r1(2) r2(2))
  moreover have "np_random_state w1' = np_random_state w2'" by (simp only: s1(1) s2(1))
  ultimately show ?thesis
    using r1(1) r2(1) eq s1(2) s2(2) by blast
qed

end
